theory Spec2Isabelle
  imports Main "HOL-Library.Sublist"
begin

section \<open>JavaScript strings\<close>

text \<open>
  A JavaScript string is a sequence of UTF-16 code units. A code unit is modelled as a
  natural number, a string as the list of its code units, and a literal is written
  \<open>js ''abc''\<close>. Indices are integers, as in the source, where \<open>-1\<close> is "not found";
  \<open>charCodeAt\<close> out of range is \<open>NaN\<close>, modelled as \<open>None\<close>; \<open>undefined\<close> is \<open>None\<close>.
\<close>

type_synonym jsstr = "nat list"

abbreviation js :: "string \<Rightarrow> jsstr" where
  "js s \<equiv> map of_char s"

abbreviation cu :: "char \<Rightarrow> nat" where
  "cu c \<equiv> of_char c"

text \<open>The offset of the first occurrence of \<open>pat\<close> in \<open>s\<close> (StringIndexOf from 0).\<close>

fun find_at :: "jsstr \<Rightarrow> jsstr \<Rightarrow> nat option" where
  "find_at pat [] = (if pat = [] then Some 0 else None)"
| "find_at pat (c # s) =
     (if prefix pat (c # s) then Some 0 else map_option Suc (find_at pat s))"

text \<open>\<open>s.indexOf(pat, pos)\<close>: the position is clamped to \<open>[0, length]\<close>.\<close>

definition indexOf :: "jsstr \<Rightarrow> jsstr \<Rightarrow> int \<Rightarrow> int" where
  "indexOf s pat pos =
     (let start = nat (max 0 (min pos (int (length s))))
      in case find_at pat (drop start s) of
           None \<Rightarrow> - 1
         | Some k \<Rightarrow> int (start + k))"

definition includesStr :: "jsstr \<Rightarrow> jsstr \<Rightarrow> bool" where
  "includesStr s pat = (find_at pat s \<noteq> None)"

definition charCodeAt :: "jsstr \<Rightarrow> int \<Rightarrow> nat option" where
  "charCodeAt s i = (if 0 \<le> i \<and> i < int (length s) then Some (s ! nat i) else None)"

text \<open>\<open>s.slice(start, end)\<close>: a negative index counts from the end; both are clamped.\<close>

definition relIndex :: "nat \<Rightarrow> int \<Rightarrow> nat" where
  "relIndex len i = (if i < 0 then nat (max (int len + i) 0) else min (nat i) len)"

definition slice :: "jsstr \<Rightarrow> int \<Rightarrow> int option \<Rightarrow> jsstr" where
  "slice s start end =
     (let len = length s;
          from = relIndex len start;
          to = (case end of None \<Rightarrow> len | Some e \<Rightarrow> relIndex len e)
      in take (to - from) (drop from s))"

text \<open>\<open>s.split(sep)\<close> for a separator of one code unit: never the empty array.\<close>

fun split :: "nat \<Rightarrow> jsstr \<Rightarrow> jsstr list" where
  "split sep [] = [[]]"
| "split sep (c # s) =
     (if c = sep then [] # split sep s
      else (case split sep s of [] \<Rightarrow> [[c]] | p # ps \<Rightarrow> (c # p) # ps))"

text \<open>
  \<open>s.replace(pat, repl)\<close> with a string pattern replaces the first occurrence only, and
  the replacement text is expanded (GetSubstitution with no captures): \<open>$$\<close> is a dollar,
  \<open>$&\<close> the matched text, \<open>$`\<close> the text before the match and \<open>$'\<close> the text after it.
\<close>

fun getSubstitution :: "jsstr \<Rightarrow> jsstr \<Rightarrow> jsstr \<Rightarrow> jsstr \<Rightarrow> jsstr" where
  "getSubstitution m b a (c # d # t) =
     (if c = cu CHR ''$'' then
        (if d = cu CHR ''$'' then cu CHR ''$'' # getSubstitution m b a t
         else if d = cu CHR ''&'' then m @ getSubstitution m b a t
         else if d = cu CHR 0x60 then b @ getSubstitution m b a t
         else if d = cu CHR 0x27 then a @ getSubstitution m b a t
         else c # getSubstitution m b a (d # t))
      else c # getSubstitution m b a (d # t))"
| "getSubstitution m b a t = t"

definition replaceStr :: "jsstr \<Rightarrow> jsstr \<Rightarrow> jsstr \<Rightarrow> jsstr" where
  "replaceStr s pat repl =
     (case find_at pat s of
        None \<Rightarrow> s
      | Some k \<Rightarrow>
          take k s @ getSubstitution pat (take k s) (drop (k + length pat) s) repl
            @ drop (k + length pat) s)"

text \<open>\<open>a.indexOf(v)\<close> on an array: the first index holding \<open>v\<close>, or \<open>-1\<close>.\<close>

fun arrayIndexOf :: "'a list \<Rightarrow> 'a \<Rightarrow> int" where
  "arrayIndexOf [] v = - 1"
| "arrayIndexOf (x # xs) v =
     (if x = v then 0 else (let i = arrayIndexOf xs v in if i < 0 then - 1 else i + 1))"

text \<open>A template literal prints an undefined value as the text \<open>undefined\<close>.\<close>

definition template :: "jsstr option \<Rightarrow> jsstr" where
  "template v = (case v of None \<Rightarrow> js ''undefined'' | Some s \<Rightarrow> s)"

section \<open>Merging paths\<close>

text \<open>\<open>base?.[0]\<close> and \<open>base?.at(-1)\<close>: undefined on an undefined or empty string.\<close>

definition firstUnit :: "jsstr option \<Rightarrow> nat option" where
  "firstUnit v = (case v of Some (c # t) \<Rightarrow> Some c | _ \<Rightarrow> None)"

definition lastUnit :: "jsstr option \<Rightarrow> nat option" where
  "lastUnit v = (case v of Some (c # t) \<Rightarrow> Some (last (c # t)) | _ \<Rightarrow> None)"

definition withoutLeadingSlash :: "jsstr option \<Rightarrow> jsstr" where
  "withoutLeadingSlash sub =
     (case sub of
        None \<Rightarrow> template None
      | Some s \<Rightarrow> if firstUnit sub = Some (cu CHR ''/'') then slice s 1 None else s)"

definition mergeTwo :: "jsstr option \<Rightarrow> jsstr option \<Rightarrow> jsstr" where
  "mergeTwo base sub =
     (if firstUnit base = Some (cu CHR ''/'') then [] else js ''/'') @ template base
       @ (if sub = Some (js ''/'') then []
          else (if lastUnit base = Some (cu CHR ''/'') then [] else js ''/'')
                 @ withoutLeadingSlash sub)"

fun mergePath :: "jsstr list \<Rightarrow> jsstr" where
  "mergePath [] = mergeTwo None None"
| "mergePath [base] = mergeTwo (Some base) None"
| "mergePath [base, sub] = mergeTwo (Some base) (Some sub)"
| "mergePath (base # sub # rest) = mergeTwo (Some base) (Some (mergePath (sub # rest)))"

section \<open>Optional parameters\<close>

record optState =
  results :: "jsstr list"
  basePath :: jsstr

definition optStep :: "optState \<Rightarrow> jsstr \<Rightarrow> optState" where
  "optStep st segment =
     (if segment \<noteq> [] \<and> \<not> includesStr segment (js '':'') then
        st\<lparr>basePath := basePath st @ js ''/'' @ segment\<rparr>
      else if includesStr segment (js '':'') then
        (if includesStr segment (js ''?'') then
           (let rs = (if length (results st) = 0 \<and> basePath st = []
                      then results st @ [js ''/'']
                      else results st @ [basePath st]);
                optionalSegment = replaceStr segment (js ''?'') [];
                bp = basePath st @ js ''/'' @ optionalSegment
            in \<lparr>results = rs @ [bp], basePath = bp\<rparr>)
         else st\<lparr>basePath := basePath st @ js ''/'' @ segment\<rparr>)
      else st)"

text \<open>\<open>results.filter((v, i, a) => a.indexOf(v) === i)\<close>\<close>

definition firstOccurrences :: "'a list \<Rightarrow> 'a list" where
  "firstOccurrences a =
     map fst (filter (\<lambda>(v, i). arrayIndexOf a v = int i) (zip a [0..<length a]))"

definition checkOptionalParameter :: "jsstr \<Rightarrow> jsstr list option" where
  "checkOptionalParameter path =
     (if charCodeAt path (int (length path) - 1) \<noteq> Some 63 then None
      else if \<not> includesStr path (js '':'') then None
      else Some (firstOccurrences
                   (results (foldl optStep \<lparr>results = [], basePath = []\<rparr>
                               (split (cu CHR ''/'') path)))))"

section \<open>The specification's reading of a join\<close>

text \<open>
  The specification of \<open>mergePath\<close> in its own words: the two fragments are joined with
  exactly one slash between them, whether or not the left one ends with a slash or the
  right one begins with one. The result starts with a slash.
\<close>

definition spec_leadingSlash :: "jsstr \<Rightarrow> jsstr" where
  "spec_leadingSlash base =
     (case base of [] \<Rightarrow> js ''/'' | c # t \<Rightarrow> if c = cu CHR ''/'' then [] else js ''/'')"

definition spec_dropTrailingSlash :: "jsstr \<Rightarrow> jsstr" where
  "spec_dropTrailingSlash base =
     (if base \<noteq> [] \<and> last base = cu CHR ''/'' then butlast base else base)"

definition spec_dropLeadingSlash :: "jsstr \<Rightarrow> jsstr" where
  "spec_dropLeadingSlash sub =
     (case sub of [] \<Rightarrow> [] | c # t \<Rightarrow> if c = cu CHR ''/'' then t else sub)"

definition spec_oneSlashJoin :: "jsstr \<Rightarrow> jsstr \<Rightarrow> jsstr" where
  "spec_oneSlashJoin base sub =
     spec_leadingSlash base @ spec_dropTrailingSlash base @ js ''/''
       @ spec_dropLeadingSlash sub"

section \<open>The built-in decoders\<close>

text \<open>
  \<open>decodeURI\<close> and \<open>decodeURIComponent\<close> are built-ins of the language, not code of this
  repository. They are modelled from ECMA-262: the abstract operation \<open>Decode\<close> walks the
  string; a code unit other than \<open>%\<close> is copied; an escape \<open>%XY\<close> of an octet below 128 is
  replaced by that code unit unless it is in the set of escapes to preserve, where the
  escape is copied as it stands; an escape of a leading octet of a UTF-8 sequence is read
  together with its continuation escapes and replaced by the UTF-16 encoding of the code
  point. A malformed escape or an ill-formed UTF-8 sequence throws a \<open>URIError\<close>.
  The set of escapes to preserve is a parameter of \<open>Decode\<close>, as in ECMA-262.
\<close>

datatype error = URIError

definition hexDigit :: "nat \<Rightarrow> nat option" where
  "hexDigit c =
     (if 48 \<le> c \<and> c \<le> 57 then Some (c - 48)
      else if 65 \<le> c \<and> c \<le> 70 then Some (c - 55)
      else if 97 \<le> c \<and> c \<le> 102 then Some (c - 87)
      else None)"

definition hexOctet :: "nat \<Rightarrow> nat \<Rightarrow> nat option" where
  "hexOctet h l =
     (case hexDigit h of
        None \<Rightarrow> None
      | Some a \<Rightarrow> (case hexDigit l of None \<Rightarrow> None | Some b \<Rightarrow> Some (16 * a + b)))"

text \<open>The number of leading 1 bits of an octet.\<close>

definition leadingOnes :: "nat \<Rightarrow> nat" where
  "leadingOnes b =
     (if b < 128 then 0 else if b < 192 then 1 else if b < 224 then 2
      else if b < 240 then 3 else if b < 248 then 4 else 5)"

text \<open>
  A continuation octet has the two leading bits \<open>10\<close>. The next \<open>n\<close> escapes of the
  string, read as continuation octets, and the rest of the string: an escape that is
  malformed or is no continuation octet throws.
\<close>

definition isCont :: "nat \<Rightarrow> bool" where
  "isCont b = (128 \<le> b \<and> b < 192)"

fun contOctets :: "nat \<Rightarrow> jsstr \<Rightarrow> (nat list \<times> jsstr) option" where
  "contOctets 0 s = Some ([], s)"
| "contOctets (Suc n) (p # h # l # s) =
     (if p = cu CHR ''%'' then
        (case hexOctet h l of
           None \<Rightarrow> None
         | Some b \<Rightarrow>
             (if isCont b then
                (case contOctets n s of
                   None \<Rightarrow> None
                 | Some (bs, r) \<Rightarrow> Some (b # bs, r))
              else None))
      else None)"
| "contOctets (Suc n) s = None"

text \<open>
  The code point of a well-formed UTF-8 sequence: the encoding is the shortest one, and
  the code point is no surrogate and at most \<open>0x10FFFF\<close>.
\<close>

fun utf8Value :: "nat list \<Rightarrow> nat option" where
  "utf8Value [a, b] =
     (let v = (a mod 32) * 64 + b mod 64
      in if isCont b \<and> 128 \<le> v then Some v else None)"
| "utf8Value [a, b, c] =
     (let v = (a mod 16) * 4096 + (b mod 64) * 64 + c mod 64
      in if isCont b \<and> isCont c \<and> 2048 \<le> v \<and> \<not> (55296 \<le> v \<and> v \<le> 57343)
         then Some v else None)"
| "utf8Value [a, b, c, d] =
     (let v = (a mod 8) * 262144 + (b mod 64) * 4096 + (c mod 64) * 64 + d mod 64
      in if isCont b \<and> isCont c \<and> isCont d \<and> 65536 \<le> v \<and> v \<le> 1114111
         then Some v else None)"
| "utf8Value bs = None"

definition utf16Encode :: "nat \<Rightarrow> jsstr" where
  "utf16Encode v =
     (if v < 65536 then [v]
      else [55296 + (v - 65536) div 1024, 56320 + (v - 65536) mod 1024])"

lemma contOctets_length:
  "contOctets n s = Some (bs, r) \<Longrightarrow> length r \<le> length s"
  by (induction n s arbitrary: bs r rule: contOctets.induct)
    (force split: if_splits option.splits)+

function Decode :: "nat list \<Rightarrow> jsstr \<Rightarrow> error + jsstr" where
  "Decode preserve [] = Inr []"
| "Decode preserve (c # s) =
     (if c \<noteq> cu CHR ''%'' then
        (case Decode preserve s of Inl e \<Rightarrow> Inl e | Inr r \<Rightarrow> Inr (c # r))
      else
        (case s of
           h # l # t \<Rightarrow>
             (case hexOctet h l of
                None \<Rightarrow> Inl URIError
              | Some b \<Rightarrow>
                  (if leadingOnes b = 0 then
                     (case Decode preserve t of
                        Inl e \<Rightarrow> Inl e
                      | Inr r \<Rightarrow> Inr ((if b \<in> set preserve then [c, h, l] else [b]) @ r))
                   else if leadingOnes b = 1 \<or> 4 < leadingOnes b then Inl URIError
                   else
                     (case contOctets (leadingOnes b - 1) t of
                        None \<Rightarrow> Inl URIError
                      | Some (bs, t') \<Rightarrow>
                          (case utf8Value (b # bs) of
                             None \<Rightarrow> Inl URIError
                           | Some v \<Rightarrow>
                               (case Decode preserve t' of
                                  Inl e \<Rightarrow> Inl e
                                | Inr r \<Rightarrow> Inr (utf16Encode v @ r))))))
         | _ \<Rightarrow> Inl URIError))"
  by pat_completeness auto
termination
  by (relation "measure (\<lambda>(preserve, s). length s)")
    (auto dest: contOctets_length)

definition decodeURI :: "jsstr \<Rightarrow> error + jsstr" where
  "decodeURI s = Decode (js '';/?:@&=+$,#'') s"

definition decodeURIComponent :: "jsstr \<Rightarrow> error + jsstr" where
  "decodeURIComponent s = Decode [] s"

section \<open>Best-effort decoding\<close>

text \<open>
  The length of the match of \<open>/(?:%[0-9A-Fa-f]{2})+/\<close> at the start of a string: the
  longest prefix made of escapes, \<open>0\<close> when there is no match.
\<close>

fun escapeRun :: "jsstr \<Rightarrow> nat" where
  "escapeRun (p # h # l # s) =
     (if p = cu CHR ''%'' \<and> hexDigit h \<noteq> None \<and> hexDigit l \<noteq> None
      then 3 + escapeRun s else 0)"
| "escapeRun s = 0"

text \<open>
  \<open>str.replace(/(?:%[0-9A-Fa-f]{2})+/g, f)\<close>: every match, from the left, is replaced by
  what the callback returns for it; an exception of the callback leaves the replace.
\<close>

function replaceRuns :: "(jsstr \<Rightarrow> error + jsstr) \<Rightarrow> jsstr \<Rightarrow> error + jsstr" where
  "replaceRuns f [] = Inr []"
| "replaceRuns f (c # s) =
     (if escapeRun (c # s) = 0 then
        (case replaceRuns f s of Inl e \<Rightarrow> Inl e | Inr r \<Rightarrow> Inr (c # r))
      else
        (case f (take (escapeRun (c # s)) (c # s)) of
           Inl e \<Rightarrow> Inl e
         | Inr m \<Rightarrow>
             (case replaceRuns f (drop (escapeRun (c # s)) (c # s)) of
                Inl e \<Rightarrow> Inl e
              | Inr r \<Rightarrow> Inr (m @ r))))"
  by pat_completeness auto
termination
  by (relation "measure (\<lambda>(f, s). length s)") auto

text \<open>The \<open>catch\<close> block of \<open>tryDecode\<close>, and \<open>tryDecode\<close>.\<close>

definition decodeRuns :: "jsstr \<Rightarrow> (jsstr \<Rightarrow> error + jsstr) \<Rightarrow> error + jsstr" where
  "decodeRuns str decoder =
     replaceRuns
       (\<lambda>match. case decoder match of Inl e \<Rightarrow> Inr match | Inr r \<Rightarrow> Inr r) str"

definition tryDecode :: "jsstr \<Rightarrow> (jsstr \<Rightarrow> error + jsstr) \<Rightarrow> error + jsstr" where
  "tryDecode str decoder =
     (case decoder str of Inl e \<Rightarrow> decodeRuns str decoder | Inr r \<Rightarrow> Inr r)"

definition tryDecodeURI :: "jsstr \<Rightarrow> error + jsstr" where
  "tryDecodeURI str = tryDecode str decodeURI"

section \<open>The path of a request\<close>

text \<open>\<open>path.replace(/%25/g, '%2525')\<close>\<close>

fun escapePercent :: "jsstr \<Rightarrow> jsstr" where
  "escapePercent (a # b # c # s) =
     (if a = cu CHR ''%'' \<and> b = cu CHR ''2'' \<and> c = cu CHR ''5''
      then js ''%2525'' @ escapePercent s
      else a # escapePercent (b # c # s))"
| "escapePercent s = s"

function scanPath :: "jsstr \<Rightarrow> int \<Rightarrow> int \<Rightarrow> error + jsstr" where
  "scanPath url start i =
     (if i < int (length url) then
        (if charCodeAt url i = Some 37 then
           (let queryIndex = indexOf url (js ''?'') i;
                path = slice url start (if queryIndex = - 1 then None else Some queryIndex)
            in tryDecodeURI (if includesStr path (js ''%25'') then escapePercent path else path))
         else if charCodeAt url i = Some 63 then Inr (slice url start (Some i))
         else scanPath url start (i + 1))
      else Inr (slice url start (Some i)))"
  by pat_completeness auto
termination
  by (relation "measure (\<lambda>(url, start, i). nat (int (length url) - i))") auto

definition getPath :: "jsstr \<Rightarrow> error + jsstr" where
  "getPath url =
     (let start = indexOf url (js ''/'') (if charCodeAt url 9 = Some 58 then 13 else 8)
      in scanPath url start start)"

text \<open>
  The specification's words for the runs of escapes in a string: a run is a non-empty
  string made of escapes only; it is maximal in \<open>a @ m @ b\<close> when \<open>a\<close> does not end with
  an escape and \<open>b\<close> does not start with one.
\<close>

definition spec_isRun :: "jsstr \<Rightarrow> bool" where
  "spec_isRun m = (m \<noteq> [] \<and> escapeRun m = length m)"

definition spec_endsWithEscape :: "jsstr \<Rightarrow> bool" where
  "spec_endsWithEscape a = (3 \<le> length a \<and> escapeRun (drop (length a - 3) a) = 3)"

definition spec_startsWithEscape :: "jsstr \<Rightarrow> bool" where
  "spec_startsWithEscape b = (0 < escapeRun b)"

text \<open>
  The specification's words for what \<open>getPath\<close> does to a path that holds \<open>%25\<close>: the
  path is decoded once, and the escape of the percent sign is left as it stands. That is
  \<open>decodeURI\<close> with the percent sign added to the escapes it preserves.
\<close>

definition spec_decodeKeepPercent :: "jsstr \<Rightarrow> error + jsstr" where
  "spec_decodeKeepPercent s = Decode (js ''%;/?:@&=+$,#'') s"

text \<open>
  The specification's words for the request URL: a scheme, the text \<open>://\<close>, the
  authority, which holds no slash, no question mark and no hash (scheme and authority
  together are \<open>origin\<close>), then the path, which starts with a slash and runs to the
  first \<open>?\<close>, then the query. \<open>spec_authorityStart\<close> is the offset of the authority.
\<close>

definition spec_authorityStart :: "jsstr \<Rightarrow> nat" where
  "spec_authorityStart origin = length (takeWhile (\<lambda>c. c \<noteq> cu CHR '':'') origin) + 3"

definition spec_urlParts :: "jsstr \<Rightarrow> jsstr \<Rightarrow> jsstr \<Rightarrow> bool" where
  "spec_urlParts origin path rest =
     (3 < spec_authorityStart origin
      \<and> take 3 (drop (spec_authorityStart origin - 3) origin) = js ''://''
      \<and> \<not> list_ex (\<lambda>c. c \<in> set (js ''/?#'')) (drop (spec_authorityStart origin) origin)
      \<and> path \<noteq> [] \<and> hd path = cu CHR ''/''
      \<and> cu CHR ''?'' \<notin> set path
      \<and> (rest = [] \<or> hd rest = cu CHR ''?''))"

section \<open>Regular expressions of the host\<close>

text \<open>
  \<open>RegExp\<close> is a built-in of the language. A compiled regular expression (without flags)
  is determined by its source text. The constructor throws a \<open>SyntaxError\<close> when the
  source is not a pattern of the language: which sources are patterns is a parameter
  \<open>valid\<close> of the model.
\<close>

datatype regExp = RegExp (source: jsstr)

datatype jsError = SyntaxError

definition newRegExp :: "(jsstr \<Rightarrow> bool) \<Rightarrow> jsstr \<Rightarrow> jsError + regExp" where
  "newRegExp valid src = (if valid src then Inr (RegExp src) else Inl SyntaxError)"

text \<open>
  What a regular expression accepts is modelled from ECMA-262 for the patterns made of an
  optional \<open>^\<close>, a sequence of atoms, each with an optional quantifier \<open>?\<close>, \<open>*\<close> or
  \<open>+\<close>, and an optional \<open>$\<close>; an atom is a code unit without special meaning, the
  dot, or a class \<open>[...]\<close> of code units and ranges, negated by a leading \<open>^\<close>. For any
  other source \<open>regExpTest\<close> gives no answer (\<open>None\<close>).
\<close>

datatype quant = One | Opt | Star | Plus

datatype atom = Atom (ranges: "(nat \<times> nat) list") (negated: bool)

definition atomMatches :: "atom \<Rightarrow> nat \<Rightarrow> bool" where
  "atomMatches a c = (list_ex (\<lambda>(lo, hi). lo \<le> c \<and> c \<le> hi) (ranges a) \<noteq> negated a)"

fun matchItems :: "(atom \<times> quant) list \<Rightarrow> bool \<Rightarrow> jsstr \<Rightarrow> bool" where
  "matchItems [] toEnd s = (if toEnd then s = [] else True)"
| "matchItems ((a, One) # r) toEnd [] = False"
| "matchItems ((a, One) # r) toEnd (c # t) = (atomMatches a c \<and> matchItems r toEnd t)"
| "matchItems ((a, Opt) # r) toEnd [] = matchItems r toEnd []"
| "matchItems ((a, Opt) # r) toEnd (c # t) =
     ((atomMatches a c \<and> matchItems r toEnd t) \<or> matchItems r toEnd (c # t))"
| "matchItems ((a, Star) # r) toEnd [] = matchItems r toEnd []"
| "matchItems ((a, Star) # r) toEnd (c # t) =
     ((atomMatches a c \<and> matchItems ((a, Star) # r) toEnd t) \<or> matchItems r toEnd (c # t))"
| "matchItems ((a, Plus) # r) toEnd [] = False"
| "matchItems ((a, Plus) # r) toEnd (c # t) =
     (atomMatches a c \<and> matchItems ((a, Star) # r) toEnd t)"

fun searchItems :: "(atom \<times> quant) list \<Rightarrow> bool \<Rightarrow> jsstr \<Rightarrow> bool" where
  "searchItems items toEnd [] = matchItems items toEnd []"
| "searchItems items toEnd (c # t) =
     (matchItems items toEnd (c # t) \<or> searchItems items toEnd t)"

fun parseClass :: "jsstr \<Rightarrow> ((nat \<times> nat) list \<times> jsstr) option" where
  "parseClass [] = None"
| "parseClass (a # r) =
     (if a = cu CHR '']'' then Some ([], r)
      else if a = cu CHR 0x5C then None
      else
        (case r of
           m # b # r' \<Rightarrow>
             (if m = cu CHR ''-'' \<and> b \<noteq> cu CHR '']'' then
                (if b = cu CHR 0x5C \<or> b < a then None
                 else (case parseClass r' of
                         None \<Rightarrow> None
                       | Some (rs, rest) \<Rightarrow> Some ((a, b) # rs, rest)))
              else (case parseClass r of
                      None \<Rightarrow> None
                    | Some (rs, rest) \<Rightarrow> Some ((a, a) # rs, rest)))
         | _ \<Rightarrow>
             (case parseClass r of
                None \<Rightarrow> None
              | Some (rs, rest) \<Rightarrow> Some ((a, a) # rs, rest))))"

definition parseAtom :: "jsstr \<Rightarrow> (atom \<times> jsstr) option" where
  "parseAtom s =
     (case s of
        [] \<Rightarrow> None
      | c # r \<Rightarrow>
          (if c = cu CHR ''['' then
             (case r of
                [] \<Rightarrow> None
              | d # r' \<Rightarrow>
                  (if d = cu CHR ''^''
                   then map_option (\<lambda>(rs, rest). (Atom rs True, rest)) (parseClass r')
                   else map_option (\<lambda>(rs, rest). (Atom rs False, rest)) (parseClass r)))
           else if c = cu CHR ''.'' then
             Some (Atom [(10, 10), (13, 13), (8232, 8233)] True, r)
           else if c \<in> set (js ''^$*+?()|{}]'') \<or> c = cu CHR 0x5C then None
           else Some (Atom [(c, c)] False, r)))"

definition parseQuant :: "jsstr \<Rightarrow> (quant \<times> jsstr) option" where
  "parseQuant s =
     (case s of
        [] \<Rightarrow> Some (One, [])
      | c # r \<Rightarrow>
          (let q = (if c = cu CHR ''?'' then Some Opt
                    else if c = cu CHR ''*'' then Some Star
                    else if c = cu CHR ''+'' then Some Plus
                    else None)
           in case q of
                None \<Rightarrow> Some (One, s)
              | Some k \<Rightarrow>
                  (case r of
                     [] \<Rightarrow> Some (k, r)
                   | d # r' \<Rightarrow> if d = cu CHR ''?'' then None else Some (k, r))))"

declare parseClass.simps [simp del]

lemma parseClass_length: "parseClass s = Some (rs, rest) \<Longrightarrow> length rest < length s"
proof (induction "length s" arbitrary: s rs rest rule: less_induct)
  case less
  show ?case
  proof (cases s)
    case Nil
    with less.prems show ?thesis by (simp add: parseClass.simps)
  next
    case (Cons a r)
    from less.prems have
      "rest = r \<or> (\<exists>rs'. parseClass r = Some (rs', rest))
       \<or> (\<exists>m b r' rs'. r = m # b # r' \<and> parseClass r' = Some (rs', rest))"
      unfolding Cons
      by (subst (asm) parseClass.simps) (auto split: if_splits list.splits option.splits)
    then consider "rest = r" | rs' where "parseClass r = Some (rs', rest)"
      | m b r' rs' where "r = m # b # r'" "parseClass r' = Some (rs', rest)"
      by blast
    then show ?thesis
    proof cases
      case 1
      with Cons show ?thesis by simp
    next
      case 2
      with less.hyps [of r rs' rest] Cons show ?thesis by simp
    next
      case 3
      with less.hyps [of r' rs' rest] Cons show ?thesis by simp
    qed
  qed
qed

lemma parseAtom_length: "parseAtom s = Some (a, rest) \<Longrightarrow> length rest < length s"
  by (auto simp: parseAtom_def split: list.splits if_splits dest!: parseClass_length)

lemma parseQuant_length: "parseQuant s = Some (q, rest) \<Longrightarrow> length rest \<le> length s"
  by (auto simp: parseQuant_def Let_def split: list.splits if_splits option.splits)

function parseItems :: "jsstr \<Rightarrow> ((atom \<times> quant) list \<times> bool) option" where
  "parseItems s =
     (if s = [] then Some ([], False)
      else if s = js ''$'' then Some ([], True)
      else
        (case parseAtom s of
           None \<Rightarrow> None
         | Some (a, r) \<Rightarrow>
             (case parseQuant r of
                None \<Rightarrow> None
              | Some (q, r') \<Rightarrow>
                  (case parseItems r' of
                     None \<Rightarrow> None
                   | Some (items, toEnd) \<Rightarrow> Some ((a, q) # items, toEnd)))))"
  by pat_completeness auto
termination
proof (relation "measure length")
  fix s :: jsstr and x2 a r x2a q r'
  assume "parseAtom s = Some x2" and "(a, r) = x2"
    and "parseQuant r = Some x2a" and "(q, r') = x2a"
  then have "length r < length s" and "length r' \<le> length r"
    using parseAtom_length [of s a r] parseQuant_length [of r q r'] by simp_all
  then show "(r', s) \<in> measure length" by simp
qed simp

definition regExpTest :: "regExp \<Rightarrow> jsstr \<Rightarrow> bool option" where
  "regExpTest re s =
     (case source re of
        [] \<Rightarrow> Some True
      | c # r \<Rightarrow>
          (if c = cu CHR ''^''
           then map_option (\<lambda>(items, toEnd). matchItems items toEnd s) (parseItems r)
           else map_option (\<lambda>(items, toEnd). searchItems items toEnd s)
                  (parseItems (c # r))))"

section \<open>Patterns\<close>

datatype constraint = Always | Matching regExp

datatype pattern = Wildcard | Capture jsstr jsstr constraint

text \<open>
  \<open>label.match(/^\:([^\{\}]+)(?:\{(.+)\})?$/)\<close>, as the pair of its two groups. The
  first group is greedy and takes every code unit up to the first brace; a shorter name
  would be followed by a code unit that is neither \<open>{\<close> nor the end, so no other split
  matches. When a brace follows, the match needs \<open>{\<close>, a non-empty text without line
  terminators (the dot does not match them), and \<open>}\<close> as the last code unit.
\<close>

definition notBrace :: "nat \<Rightarrow> bool" where
  "notBrace c = (c \<noteq> cu CHR ''{'' \<and> c \<noteq> cu CHR ''}'')"

definition lineTerminator :: "nat \<Rightarrow> bool" where
  "lineTerminator c = (c = 10 \<or> c = 13 \<or> c = 8232 \<or> c = 8233)"

definition matchLabel :: "jsstr \<Rightarrow> (jsstr \<times> jsstr option) option" where
  "matchLabel label =
     (case label of
        [] \<Rightarrow> None
      | c # rest \<Rightarrow>
          (if c \<noteq> cu CHR '':'' then None
           else
             (let name = takeWhile notBrace rest; tail = dropWhile notBrace rest
              in if name = [] then None
                 else if tail = [] then Some (name, None)
                 else if hd tail = cu CHR ''{'' \<and> 3 \<le> length tail \<and> last tail = cu CHR ''}''
                         \<and> \<not> list_ex lineTerminator (butlast (tl tail))
                 then Some (name, Some (butlast (tl tail)))
                 else None)))"

text \<open>
  The module-wide \<open>patternCache\<close> is state: a map from cache keys to patterns. A cache
  key holds \<open>#\<close>, so it is never the name of a property that the cache object inherits,
  and every pattern is an array or \<open>'*'\<close>, so \<open>!patternCache[cacheKey]\<close> holds exactly
  when the key is not in the map. \<open>compiled\<close> counts the calls of the \<open>RegExp\<close>
  constructor.
\<close>

record patternState =
  patternCache :: "jsstr \<rightharpoonup> pattern"
  compiled :: nat

definition usableHint :: "jsstr option \<Rightarrow> bool" where
  "usableHint next =
     (case next of
        None \<Rightarrow> False
      | Some n \<Rightarrow>
          (case n of
             [] \<Rightarrow> False
           | c # t \<Rightarrow> c \<noteq> cu CHR '':'' \<and> c \<noteq> cu CHR ''*''))"

definition compilePattern ::
  "(jsstr \<Rightarrow> bool) \<Rightarrow> jsstr \<Rightarrow> jsstr \<Rightarrow> jsstr \<Rightarrow> jsstr \<Rightarrow> patternState
     \<Rightarrow> (jsError + pattern option) \<times> patternState" where
  "compilePattern valid cacheKey label name src st =
     (case newRegExp valid src of
        Inl e \<Rightarrow> (Inl e, st\<lparr>compiled := compiled st + 1\<rparr>)
      | Inr re \<Rightarrow>
          (Inr (Some (Capture label name (Matching re))),
           \<lparr>patternCache = (patternCache st)(cacheKey \<mapsto> Capture label name (Matching re)),
            compiled = compiled st + 1\<rparr>))"

definition getPattern ::
  "(jsstr \<Rightarrow> bool) \<Rightarrow> jsstr \<Rightarrow> jsstr option \<Rightarrow> patternState
     \<Rightarrow> (jsError + pattern option) \<times> patternState" where
  "getPattern valid label next st =
     (if label = js ''*'' then (Inr (Some Wildcard), st)
      else
        (case matchLabel label of
           None \<Rightarrow> (Inr None, st)
         | Some (name, brace) \<Rightarrow>
             (let cacheKey = label @ js ''#'' @ template next
              in case patternCache st cacheKey of
                   Some p \<Rightarrow> (Inr (Some p), st)
                 | None \<Rightarrow>
                     (case brace of
                        Some c \<Rightarrow>
                          (if usableHint next
                           then compilePattern valid cacheKey cacheKey name
                                  (js ''^'' @ c @ js ''(?=/'' @ template next @ js '')'') st
                           else compilePattern valid cacheKey label name
                                  (js ''^'' @ c @ js ''$'') st)
                      | None \<Rightarrow>
                          (Inr (Some (Capture label name Always)),
                           st\<lparr>patternCache :=
                                (patternCache st)(cacheKey \<mapsto> Capture label name Always)\<rparr>)))))"

text \<open>
  The specification's words for a parameter label: \<open>:name\<close> or \<open>:name{constraint}\<close>,
  with a non-empty name free of braces and a non-empty constraint on one line.
\<close>

definition spec_parameterLabel :: "jsstr \<Rightarrow> bool" where
  "spec_parameterLabel label =
     (\<exists>name. name \<noteq> [] \<and> list_all notBrace name
        \<and> (label = js '':'' @ name
            \<or> (\<exists>c. c \<noteq> [] \<and> \<not> list_ex lineTerminator c
                  \<and> label = js '':'' @ name @ js ''{'' @ c @ js ''}'')))"

section \<open>Splitting a route template\<close>

definition splitPath :: "jsstr \<Rightarrow> jsstr list" where
  "splitPath path =
     (let paths = split (cu CHR ''/'') path
      in if hd paths = [] then tl paths else paths)"

text \<open>\<open>`@${index}`\<close>: the decimal digits of an index.\<close>

function natToString :: "nat \<Rightarrow> jsstr" where
  "natToString n = (if n < 10 then [48 + n] else natToString (n div 10) @ [48 + n mod 10])"
  by pat_completeness auto
termination
  by (relation "measure id") auto

declare natToString.simps [simp del]

text \<open>
  The length of the match of \<open>/\{[^}]+\}/\<close> at the start of a string: an opening brace,
  one or more code units other than a closing brace, as many as there are, and a closing
  brace. \<open>None\<close> when there is no match.
\<close>

definition braceMatch :: "jsstr \<Rightarrow> nat option" where
  "braceMatch s =
     (case s of
        [] \<Rightarrow> None
      | c # r \<Rightarrow>
          (let n = length (takeWhile (\<lambda>x. x \<noteq> cu CHR ''}'') r)
           in if c = cu CHR ''{'' \<and> 0 < n \<and> n < length r then Some (n + 2) else None))"

text \<open>
  \<open>path.replace(/\{[^}]+\}/g, (match, index) => ...)\<close>: every match, from the left, is
  recorded with its mark and replaced by the mark; \<open>index\<close> is the offset of the match
  in the string.
\<close>

function extractGroups :: "nat \<Rightarrow> jsstr \<Rightarrow> (jsstr \<times> jsstr) list \<times> jsstr" where
  "extractGroups index [] = ([], [])"
| "extractGroups index (c # s) =
     (case braceMatch (c # s) of
        None \<Rightarrow>
          (let (groups, path) = extractGroups (index + 1) s in (groups, c # path))
      | Some n \<Rightarrow>
          (let mark = js ''@'' @ natToString index;
               (groups, path) = extractGroups (index + n) (drop n (c # s))
           in ((mark, take n (c # s)) # groups, mark @ path)))"
  by pat_completeness auto
termination
  by (relation "measure (\<lambda>(index, s). length s)")
    (auto simp: braceMatch_def Let_def split: if_splits)

definition extractGroupsFromPath :: "jsstr \<Rightarrow> (jsstr \<times> jsstr) list \<times> jsstr" where
  "extractGroupsFromPath path = extractGroups 0 path"

text \<open>
  The inner loop of \<open>replaceGroupMarks\<close>: the last path that includes the mark gets the
  first occurrence of the mark replaced. \<open>replaceMarkFromEnd\<close> takes the paths last
  first.
\<close>

fun replaceMarkFromEnd :: "jsstr list \<Rightarrow> jsstr \<Rightarrow> jsstr \<Rightarrow> jsstr list" where
  "replaceMarkFromEnd [] mark content = []"
| "replaceMarkFromEnd (p # ps) mark content =
     (if includesStr p mark then replaceStr p mark content # ps
      else p # replaceMarkFromEnd ps mark content)"

definition replaceMark :: "jsstr list \<Rightarrow> jsstr \<times> jsstr \<Rightarrow> jsstr list" where
  "replaceMark paths g = rev (replaceMarkFromEnd (rev paths) (fst g) (snd g))"

definition replaceGroupMarks :: "jsstr list \<Rightarrow> (jsstr \<times> jsstr) list \<Rightarrow> jsstr list" where
  "replaceGroupMarks paths groups = foldl replaceMark paths (rev groups)"

definition splitRoutingPath :: "jsstr \<Rightarrow> jsstr list" where
  "splitRoutingPath routePath =
     (let (groups, path) = extractGroupsFromPath routePath
      in replaceGroupMarks (splitPath path) groups)"

declare extractGroups.simps [simp del]














section \<open>Query parameters\<close>

text \<open>\<open>/[%+]/.test(s)\<close>\<close>

definition hasPercentOrPlus :: "jsstr \<Rightarrow> bool" where
  "hasPercentOrPlus s = (cu CHR ''%'' \<in> set s \<or> cu CHR ''+'' \<in> set s)"

text \<open>\<open>_decodeURI\<close> of the source (a name cannot start with an underscore here).\<close>

definition u_decodeURI :: "jsstr \<Rightarrow> error + jsstr" where
  "u_decodeURI v =
     (if \<not> hasPercentOrPlus v then Inr v
      else
        (let v' = (if indexOf v (js ''+'') 0 \<noteq> - 1
                   then map (\<lambda>c. if c = cu CHR ''+'' then cu CHR '' '' else c) v
                   else v)
         in if indexOf v' (js ''%'') 0 \<noteq> - 1 then tryDecode v' decodeURIComponent
            else Inr v'))"

text \<open>
  The \<open>results\<close> object is created by \<open>{}\<close>, so a property that it does not own is
  looked up in \<open>Object.prototype\<close>; the assignment \<open>results['__proto__'] = []\<close> calls the
  setter that \<open>Object.prototype\<close> has under that name and makes the new array the
  prototype of \<open>results\<close>. The model keeps the own properties in the order of their
  creation, and the array that has become the prototype, if any. The names of the
  built-in properties are those of ECMAScript 2023.
\<close>

datatype jsval =
    JUndefined
  | JString jsstr
  | JArray "jsstr list"
  | JNumber nat
  | JBuiltin jsstr
  | JObjectPrototype
  | JResults "(jsstr \<times> jsval) list" "jsstr list option"

record resultsObj =
  own :: "(jsstr \<times> jsval) list"
  arrayProto :: "jsstr list option"

definition objectPrototypeNames :: "jsstr list" where
  "objectPrototypeNames =
     [js ''constructor'', js ''hasOwnProperty'', js ''isPrototypeOf'',
      js ''propertyIsEnumerable'', js ''toLocaleString'', js ''toString'', js ''valueOf'',
      js ''__defineGetter__'', js ''__defineSetter__'', js ''__lookupGetter__'',
      js ''__lookupSetter__'']"

definition arrayPrototypeNames :: "jsstr list" where
  "arrayPrototypeNames =
     [js ''at'', js ''concat'', js ''copyWithin'', js ''entries'', js ''every'', js ''fill'',
      js ''filter'', js ''find'', js ''findIndex'', js ''findLast'', js ''findLastIndex'',
      js ''flat'', js ''flatMap'', js ''forEach'', js ''includes'', js ''indexOf'',
      js ''join'', js ''keys'', js ''lastIndexOf'', js ''map'', js ''pop'', js ''push'',
      js ''reduce'', js ''reduceRight'', js ''reverse'', js ''shift'', js ''slice'',
      js ''some'', js ''sort'', js ''splice'', js ''toReversed'', js ''toSorted'',
      js ''toSpliced'', js ''unshift'', js ''values'', js ''with'']"

text \<open>\<open>results[name]\<close>: the own property, or else what the prototype chain gives.\<close>

definition inheritedProp :: "jsstr list option \<Rightarrow> jsstr \<Rightarrow> jsval" where
  "inheritedProp proto name =
     (case proto of
        None \<Rightarrow>
          (if name = js ''__proto__'' then JObjectPrototype
           else if name \<in> set objectPrototypeNames then JBuiltin name
           else JUndefined)
      | Some a \<Rightarrow>
          (if name = js ''__proto__'' then JArray a
           else if name = js ''length'' then JNumber (length a)
           else if name \<in> set (map natToString [0..<length a])
                then JString (a ! (length (takeWhile (\<lambda>i. natToString i \<noteq> name)
                                             [0..<length a])))
           else if name \<in> set arrayPrototypeNames \<or> name \<in> set objectPrototypeNames
                then JBuiltin name
           else JUndefined))"

definition getProp :: "resultsObj \<Rightarrow> jsstr \<Rightarrow> jsval" where
  "getProp res name =
     (case map_of (own res) name of
        Some v \<Rightarrow> v
      | None \<Rightarrow> inheritedProp (arrayProto res) name)"

text \<open>\<open>results[name] ??= value\<close>\<close>

definition assignOnce :: "resultsObj \<Rightarrow> jsstr \<Rightarrow> jsstr \<Rightarrow> resultsObj" where
  "assignOnce res name value =
     (if getProp res name = JUndefined
      then res\<lparr>own := own res @ [(name, JString value)]\<rparr>
      else res)"

text \<open>
  \<open>if (!(results[name] && Array.isArray(results[name]))) results[name] = []\<close>, then
  \<open>results[name].push(value)\<close>.
\<close>

definition pushValue :: "resultsObj \<Rightarrow> jsstr \<Rightarrow> jsstr \<Rightarrow> resultsObj" where
  "pushValue res name value =
     (case getProp res name of
        JArray a \<Rightarrow>
          (if name \<in> fst ` set (own res)
           then res\<lparr>own := map (\<lambda>(n, v). if n = name then (n, JArray (a @ [value]))
                                                else (n, v)) (own res)\<rparr>
           else res\<lparr>arrayProto := Some (a @ [value])\<rparr>)
      | _ \<Rightarrow>
          (if name = js ''__proto__'' then res\<lparr>arrayProto := Some [value]\<rparr>
           else res\<lparr>own := own res @ [(name, JArray [value])]\<rparr>))"

lemma find_at_bound: "find_at pat s = Some k \<Longrightarrow> k + length pat \<le> length s"
proof (induction s arbitrary: k)
  case Nil
  then show ?case by (auto split: if_splits)
next
  case (Cons c s)
  then show ?case by (auto split: if_splits dest: prefix_length_le)
qed

lemma indexOf_found:
  assumes "indexOf s pat pos \<noteq> - 1" and "pat \<noteq> []"
  shows "pos \<le> indexOf s pat pos" and "indexOf s pat pos < int (length s)"
proof -
  define start where "start = nat (max 0 (min pos (int (length s))))"
  from assms(1) obtain k where k: "find_at pat (drop start s) = Some k"
    and i: "indexOf s pat pos = int (start + k)"
    by (auto simp: indexOf_def Let_def start_def split: option.splits)
  from find_at_bound [OF k] have b: "k + length pat \<le> length s - start" by simp
  from assms(2) have "0 < length pat" by simp
  with b have lt: "start + k < length s" by linarith
  with i show "indexOf s pat pos < int (length s)" by simp
  from lt have "start < length s" by simp
  then have "pos \<le> int start" by (auto simp: start_def split: if_splits)
  with i show "pos \<le> indexOf s pat pos" by simp
qed

text \<open>
  The loop of the optimized path: \<open>Some\<close> what the loop returns, \<open>None\<close> when it ends
  with \<open>keyIndex === -1\<close>.
\<close>

function fastLoop :: "jsstr \<Rightarrow> jsstr \<Rightarrow> int \<Rightarrow> (error + jsval) option" where
  "fastLoop url key keyIndex =
     (if keyIndex = - 1 then None
      else
        (let trailingKeyCode = charCodeAt url (keyIndex + int (length key) + 1)
         in if trailingKeyCode = Some 61 then
              (let valueIndex = keyIndex + int (length key) + 2;
                   endIndex = indexOf url (js ''&'') valueIndex
               in Some (case u_decodeURI
                               (slice url valueIndex
                                  (if endIndex = - 1 then None else Some endIndex)) of
                          Inl e \<Rightarrow> Inl e
                        | Inr v \<Rightarrow> Inr (JString v)))
            else if trailingKeyCode = Some 38 then Some (Inr (JString []))
            else if trailingKeyCode = None then Some (Inr (JString []))
            else fastLoop url key (indexOf url (js ''&'' @ key) (keyIndex + 1))))"
  by pat_completeness auto
termination
proof (relation "measure (\<lambda>(url, key, keyIndex).
          if keyIndex = - 1 then 0 else 1 + nat (int (length url) - keyIndex))")
  fix url key :: jsstr and keyIndex :: int and x
  assume "keyIndex \<noteq> - 1"
  let ?next = "indexOf url (js ''&'' @ key) (keyIndex + 1)"
  show "((url, key, ?next), url, key, keyIndex) \<in> measure (\<lambda>(url, key, keyIndex).
          if keyIndex = - 1 then 0 else 1 + nat (int (length url) - keyIndex))"
  proof (cases "?next = - 1")
    case True
    with \<open>keyIndex \<noteq> - 1\<close> show ?thesis by simp
  next
    case False
    from indexOf_found [OF False] have "keyIndex + 1 \<le> ?next" "?next < int (length url)"
      by simp_all
    with False \<open>keyIndex \<noteq> - 1\<close> show ?thesis by simp
  qed
qed simp

declare fastLoop.simps [simp del]

text \<open>The loop of the default routine.\<close>

function paramLoop ::
  "jsstr \<Rightarrow> bool \<Rightarrow> bool \<Rightarrow> int \<Rightarrow> resultsObj \<Rightarrow> error + resultsObj" where
  "paramLoop url encoded multiple keyIndex res =
     (if keyIndex = - 1 then Inr res
      else
        (let nextKeyIndex = indexOf url (js ''&'') (keyIndex + 1);
             valueIndex0 = indexOf url (js ''='') keyIndex;
             valueIndex = (if nextKeyIndex < valueIndex0 \<and> nextKeyIndex \<noteq> - 1 then - 1
                           else valueIndex0);
             name0 = slice url (keyIndex + 1)
                       (if valueIndex = - 1
                        then (if nextKeyIndex = - 1 then None else Some nextKeyIndex)
                        else Some valueIndex)
         in case (if encoded then u_decodeURI name0 else Inr name0) of
              Inl e \<Rightarrow> Inl e
            | Inr name \<Rightarrow>
                (if name = [] then paramLoop url encoded multiple nextKeyIndex res
                 else
                   (case (if valueIndex = - 1 then Inr []
                          else (let value0 = slice url (valueIndex + 1)
                                               (if nextKeyIndex = - 1 then None
                                                else Some nextKeyIndex)
                                in if encoded then u_decodeURI value0 else Inr value0)) of
                      Inl e \<Rightarrow> Inl e
                    | Inr value \<Rightarrow>
                        paramLoop url encoded multiple nextKeyIndex
                          (if multiple then pushValue res name value
                           else assignOnce res name value)))))"
  by pat_completeness auto
termination
  apply (relation "measure (\<lambda>(url, encoded, multiple, keyIndex, res).
          if keyIndex = - 1 then 0 else 1 + nat (int (length url) - keyIndex))")
    apply simp
  subgoal for url encoded multiple keyIndex
    using indexOf_found [of url "js ''&''" "keyIndex + 1"] by auto
  subgoal for url encoded multiple keyIndex
    using indexOf_found [of url "js ''&''" "keyIndex + 1"] by auto
  done

declare paramLoop.simps [simp del]

text \<open>
  Without a key the record itself is returned. Its own properties are listed in the
  order of the language (OrdinaryOwnPropertyKeys): first the array indices, which are
  the canonical numerals up to 4294967294, in ascending order, then the other names in
  the order of their creation.
\<close>

fun digitsLess :: "jsstr \<Rightarrow> jsstr \<Rightarrow> bool" where
  "digitsLess (a # as) (b # bs) = (a < b \<or> (a = b \<and> digitsLess as bs))"
| "digitsLess as bs = False"

text \<open>The order of two canonical numerals: the shorter is less, then the first digit.\<close>

definition numeralLess :: "jsstr \<Rightarrow> jsstr \<Rightarrow> bool" where
  "numeralLess a b = (length a < length b \<or> (length a = length b \<and> digitsLess a b))"

definition isArrayIndex :: "jsstr \<Rightarrow> bool" where
  "isArrayIndex name =
     (name \<noteq> [] \<and> list_all (\<lambda>c. 48 \<le> c \<and> c \<le> 57) name
      \<and> (if hd name = 48 then name = js ''0'' else True)
      \<and> numeralLess name (js ''4294967295''))"

fun insertProperty ::
  "jsstr \<times> jsval \<Rightarrow> (jsstr \<times> jsval) list \<Rightarrow> (jsstr \<times> jsval) list" where
  "insertProperty p [] = [p]"
| "insertProperty p (q # qs) =
     (if numeralLess (fst q) (fst p) then q # insertProperty p qs else p # q # qs)"

definition ownProperties :: "(jsstr \<times> jsval) list \<Rightarrow> (jsstr \<times> jsval) list" where
  "ownProperties ps =
     foldr insertProperty (filter (\<lambda>p. isArrayIndex (fst p)) ps) []
     @ filter (\<lambda>p. \<not> isArrayIndex (fst p)) ps"

definition truthy :: "jsstr option \<Rightarrow> bool" where
  "truthy v = (case v of None \<Rightarrow> False | Some s \<Rightarrow> s \<noteq> [])"

definition defaultRoutine :: "jsstr \<Rightarrow> jsstr option \<Rightarrow> bool \<Rightarrow> error + jsval" where
  "defaultRoutine url key multiple =
     (case paramLoop url (hasPercentOrPlus url) multiple (indexOf url (js ''?'') 8)
             \<lparr>own = [], arrayProto = None\<rparr> of
        Inl e \<Rightarrow> Inl e
      | Inr res \<Rightarrow>
          Inr (if truthy key then getProp res (template key)
               else JResults (ownProperties (own res)) (arrayProto res)))"

definition u_getQueryParam :: "jsstr \<Rightarrow> jsstr option \<Rightarrow> bool \<Rightarrow> error + jsval" where
  "u_getQueryParam url key multiple =
     (if \<not> multiple \<and> truthy key \<and> \<not> hasPercentOrPlus (template key) then
        (let keyIndex0 = indexOf url (js ''?'' @ template key) 8;
             keyIndex = (if keyIndex0 = - 1 then indexOf url (js ''&'' @ template key) 8
                         else keyIndex0)
         in case fastLoop url (template key) keyIndex of
              Some r \<Rightarrow> r
            | None \<Rightarrow>
                (if \<not> hasPercentOrPlus url then Inr JUndefined
                 else defaultRoutine url key multiple))
      else defaultRoutine url key multiple)"

definition getQueryParam :: "jsstr \<Rightarrow> jsstr option \<Rightarrow> error + jsval" where
  "getQueryParam url key = u_getQueryParam url key False"

definition getQueryParams :: "jsstr \<Rightarrow> jsstr option \<Rightarrow> error + jsval" where
  "getQueryParams url key = u_getQueryParam url key True"







text \<open>
  The specification's words for decoding (4.3): every \<open>+\<close> is first replaced by a space,
  then the text is decoded by \<open>tryDecode\<close> with \<open>decodeURIComponent\<close>, which leaves
  standing what cannot be decoded. The decoded value of a pair is the empty string when
  the pair has no \<open>=\<close>, and else the decoded text behind the \<open>=\<close>.
\<close>

definition spec_plusToSpace :: "jsstr \<Rightarrow> jsstr" where
  "spec_plusToSpace v = map (\<lambda>c. if c = cu CHR ''+'' then cu CHR '' '' else c) v"

definition spec_decoded :: "jsstr \<Rightarrow> jsstr" where
  "spec_decoded v =
     (case tryDecode (spec_plusToSpace v) decodeURIComponent of Inl e \<Rightarrow> v | Inr r \<Rightarrow> r)"







section \<open>Facts about the string primitives\<close>

lemma find_at_single:
  "find_at [c] s = (if c \<in> set s then Some (length (takeWhile (\<lambda>x. x \<noteq> c) s)) else None)"
  by (induction s) auto

lemma includesStr_single: "includesStr s [c] = (c \<in> set s)"
  by (simp add: includesStr_def find_at_single)

lemma split_no_sep: "sep \<notin> set s \<Longrightarrow> split sep s = [s]"
  by (induction s) auto

lemma replaceStr_drop_last:
  assumes "c \<notin> set s"
  shows "replaceStr (s @ [c]) [c] [] = s"
proof -
  have "takeWhile (\<lambda>x. x \<noteq> c) (s @ [c]) = s"
    using assms by (induction s) auto
  then show ?thesis
    by (simp add: replaceStr_def find_at_single)
qed


section \<open>mergePath\<close>

lemma mergeTwo_root_sub:
  "mergeTwo (Some base) (Some [47]) =
     (if firstUnit (Some base) = Some 47 then base else 47 # base)"
  by (simp add: mergeTwo_def template_def)



lemma withoutLeadingSlash_Some:
  "withoutLeadingSlash (Some sub) = spec_dropLeadingSlash sub"
  by (cases sub) (simp_all add: withoutLeadingSlash_def firstUnit_def slice_def relIndex_def
      spec_dropLeadingSlash_def)

lemma leadingSlash_eq:
  "(if firstUnit (Some base) = Some 47 then [] else [47]) = spec_leadingSlash base"
  by (cases base) (simp_all add: firstUnit_def spec_leadingSlash_def)

lemma trailingSlash_eq:
  "base @ (if lastUnit (Some base) = Some 47 then [] else [47]) =
     spec_dropTrailingSlash base @ [47]"
proof (cases base rule: rev_cases)
  case Nil
  then show ?thesis by (simp add: lastUnit_def spec_dropTrailingSlash_def)
next
  case (snoc b c)
  then have "lastUnit (Some base) = Some c"
    by (cases b) (simp_all add: lastUnit_def)
  with snoc show ?thesis by (simp add: spec_dropTrailingSlash_def)
qed

lemma mergeTwo_join:
  assumes "sub \<noteq> [47]"
  shows "mergeTwo (Some base) (Some sub) =
           spec_leadingSlash base @ spec_dropTrailingSlash base @ [47]
             @ spec_dropLeadingSlash sub"
proof -
  have "mergeTwo (Some base) (Some sub) =
          spec_leadingSlash base
            @ (base @ (if lastUnit (Some base) = Some 47 then [] else [47]))
            @ spec_dropLeadingSlash sub"
    (is "_ = ?r")
  proof -
    have "mergeTwo (Some base) (Some sub) =
            (if firstUnit (Some base) = Some 47 then [] else [47])
              @ (base @ (if lastUnit (Some base) = Some 47 then [] else [47]))
              @ spec_dropLeadingSlash sub"
      using assms by (simp add: mergeTwo_def withoutLeadingSlash_Some template_def)
    then show ?thesis by (simp only: leadingSlash_eq)
  qed
  then show ?thesis by (simp only: trailingSlash_eq append_assoc)
qed

text \<open>
  C7 (as amended). \<open>mergePath\<close> writes the left fragment first, behind a leading slash
  when it has none. When the right fragment is not exactly \<open>/\<close>, one trailing slash of
  the left and one leading slash of the right are dropped and exactly one slash is written
  between them; when the right fragment is exactly \<open>/\<close>, nothing is written after the
  left fragment. So \<open>mergePath("/api", "/users")\<close> is \<open>/api/users\<close> and
  \<open>mergePath("/api/", "/")\<close> is \<open>/api/\<close>.
\<close>

theorem mergePath_join:
  "mergePath [base, sub] =
     (if sub = js ''/'' then spec_leadingSlash base @ base
      else spec_oneSlashJoin base sub)
   \<and> mergePath [js ''/api'', js ''/users''] = js ''/api/users''
   \<and> mergePath [js ''/api/'', js ''/''] = js ''/api/''"
proof -
  have "mergePath [base, sub] =
     (if sub = js ''/'' then spec_leadingSlash base @ base
      else spec_oneSlashJoin base sub)"
    by (cases base) (simp_all add: mergeTwo_join mergeTwo_root_sub spec_oneSlashJoin_def
        spec_leadingSlash_def firstUnit_def)
  moreover have "mergePath [js ''/api'', js ''/users''] = js ''/api/users''"
    by (simp add: mergeTwo_join spec_leadingSlash_def spec_dropTrailingSlash_def
        spec_dropLeadingSlash_def)
  moreover have "mergePath [js ''/api/'', js ''/''] = js ''/api/''"
    by (simp add: mergeTwo_root_sub firstUnit_def)
  ultimately show ?thesis by simp
qed

text \<open>
  C7 as the specification states it fails where the right fragment is exactly \<open>/\<close> and
  the left one has no trailing slash: no slash is written at the join point.
\<close>

theorem mergePath_join_counterexample:
  "mergePath [js ''/v1'', js ''/''] = js ''/v1''
   \<and> mergePath [js ''/v1'', js ''/''] \<noteq> spec_oneSlashJoin (js ''/v1'') (js ''/'')"
  by (simp add: mergeTwo_root_sub firstUnit_def spec_oneSlashJoin_def spec_leadingSlash_def
      spec_dropTrailingSlash_def spec_dropLeadingSlash_def)

section \<open>checkOptionalParameter\<close>

lemma last_charCodeAt:
  "(charCodeAt path (int (length path) - 1) = Some c) = (path \<noteq> [] \<and> last path = c)"
  by (cases path rule: rev_cases) (auto simp: charCodeAt_def nth_append)

lemma checkOptionalParameter_None_iff:
  "(checkOptionalParameter path = None) =
     (path = [] \<or> last path \<noteq> cu CHR ''?'' \<or> cu CHR '':'' \<notin> set path)"
  by (auto simp: checkOptionalParameter_def last_charCodeAt includesStr_single)

lemma optional_example:
  "checkOptionalParameter (js ''/api/animals/:type?'') =
     Some [js ''/api/animals'', js ''/api/animals/:type'']"
  by (simp add: checkOptionalParameter_def charCodeAt_def includesStr_single optStep_def
      replaceStr_def find_at_single firstOccurrences_def Let_def)

lemma checkOptionalParameter_examples:
  "checkOptionalParameter (js ''/api/animals/:type?'') =
     Some [js ''/api/animals'', js ''/api/animals/:type'']"
  "checkOptionalParameter (js ''/api/animals'') = None"
  using optional_example checkOptionalParameter_None_iff [of "js ''/api/animals''"]
  by simp_all

text \<open>
  C9. Both examples hold (\<open>checkOptionalParameter_examples\<close>), but the code does not
  give null for every template without a trailing optional parameter. The guard looks
  for a final \<open>?\<close> and for a \<open>:\<close> anywhere in the template, not for a \<open>?\<close> on a parameter
  segment: in \<open>/:a/b?\<close> the final \<open>?\<close> sits on the literal segment \<open>b?\<close>, no segment is
  an optional parameter, and the result is the empty array, not null. The comment in the
  function says that it returns null in the other cases.
\<close>

theorem checkOptionalParameter_literal_marker:
  "checkOptionalParameter (js ''/:a/b?'') = Some []
   \<and> checkOptionalParameter (js ''/:a/b?'') \<noteq> None"
  by (simp add: checkOptionalParameter_def charCodeAt_def includesStr_single optStep_def
      firstOccurrences_def Let_def)

lemma firstOccurrences_subset: "set (firstOccurrences a) \<subseteq> set a"
  by (auto simp: firstOccurrences_def dest: set_zip_leftD)

lemma firstOccurrences_two: "a \<noteq> b \<Longrightarrow> firstOccurrences [a, b] = [a, b]"
  by (simp add: firstOccurrences_def)

lemma optStep_nonempty:
  assumes "[] \<notin> set (results st)" and "results st = [] \<or> basePath st \<noteq> []"
  shows "[] \<notin> set (results (optStep st seg)) \<and>
         (results (optStep st seg) = [] \<or> basePath (optStep st seg) \<noteq> [])"
  using assms by (auto simp: optStep_def Let_def)

lemma foldl_optStep_nonempty:
  "[] \<notin> set (results st) \<Longrightarrow> results st = [] \<or> basePath st \<noteq> [] \<Longrightarrow>
   [] \<notin> set (results (foldl optStep st segs))"
proof (induction segs arbitrary: st)
  case Nil
  then show ?case by simp
next
  case (Cons seg segs)
  from optStep_nonempty [OF Cons.prems, of seg] show ?case
    by (simp add: Cons.IH)
qed

lemma checkOptionalParameter_nonempty:
  assumes "checkOptionalParameter path = Some rs"
  shows "[] \<notin> set rs"
proof -
  let ?all = "results (foldl optStep \<lparr>results = [], basePath = []\<rparr>
                         (split (cu CHR ''/'') path))"
  have "[] \<notin> set ?all"
    by (rule foldl_optStep_nonempty) simp_all
  moreover from assms have "rs = firstOccurrences ?all"
    by (simp add: checkOptionalParameter_def split: if_splits)
  ultimately show ?thesis
    using firstOccurrences_subset [of ?all] by blast
qed

lemma checkOptionalParameter_only_segment:
  assumes "cu CHR ''/'' \<notin> set name" and "cu CHR ''?'' \<notin> set name"
  shows "checkOptionalParameter (js ''/:'' @ name @ js ''?'') = Some [js ''/'', js ''/:'' @ name]"
proof -
  let ?p = "js ''/:'' @ name @ js ''?''"
  have 1: "charCodeAt ?p (int (length ?p) - 1) = Some 63"
    unfolding last_charCodeAt by simp
  have 2: "includesStr ?p (js '':'')"
    by (simp add: includesStr_single)
  have 3: "split (cu CHR ''/'') ?p = [[], 58 # name @ [63]]"
    using assms(1) split_no_sep [of 47 "58 # name @ [63]"] by simp
  have 4: "replaceStr (58 # name @ [63]) [63] [] = 58 # name"
    using assms(2) replaceStr_drop_last [of 63 "58 # name"] by simp
  have 5: "results (foldl optStep \<lparr>results = [], basePath = []\<rparr> [[], 58 # name @ [63]])
             = [[47], 47 # 58 # name]"
    by (simp add: optStep_def includesStr_single 4 Let_def)
  show ?thesis
    unfolding checkOptionalParameter_def 1 3 5
    by (simp add: firstOccurrences_two includesStr_single)
qed

text \<open>
  C10. When the optional parameter is the only segment, the base variant is the root path:
  \<open>checkOptionalParameter("/:type?")\<close> is \<open>["/", "/:type"]\<close>, and so it is for every
  parameter name (free of \<open>/\<close> and \<open>?\<close>). No template ever gets the empty string as a
  variant.
\<close>

theorem checkOptionalParameter_root:
  "checkOptionalParameter (js ''/:type?'') = Some [js ''/'', js ''/:type'']
   \<and> (cu CHR ''/'' \<notin> set name \<and> cu CHR ''?'' \<notin> set name \<longrightarrow>
        checkOptionalParameter (js ''/:'' @ name @ js ''?'') = Some [js ''/'', js ''/:'' @ name])
   \<and> (checkOptionalParameter path = Some rs \<longrightarrow> [] \<notin> set rs)"
  using checkOptionalParameter_only_segment [of "js ''type''"]
    checkOptionalParameter_only_segment [of name] checkOptionalParameter_nonempty [of path rs]
  by simp

theorem checkOptionalParameter_root_witness:
  "checkOptionalParameter (js ''/:id?'') = Some [js ''/'', js ''/:id'']
   \<and> [] \<notin> set [js ''/'', js ''/:id'']"
  using checkOptionalParameter_root [of "js ''id''" "js ''/:id?''" "[js ''/'', js ''/:id'']"]
  by simp

section \<open>tryDecode\<close>

lemma replaceRuns_total:
  assumes "\<And>m. \<exists>r. f m = Inr r"
  shows "\<exists>r. replaceRuns f s = Inr r"
proof (induction "length s" arbitrary: s rule: less_induct)
  case less
  show ?case
  proof (cases s)
    case Nil
    then show ?thesis by simp
  next
    case (Cons c t)
    show ?thesis
    proof (cases "escapeRun (c # t) = 0")
      case True
      from less [of t] Cons obtain r where "replaceRuns f t = Inr r" by auto
      with True Cons show ?thesis by (simp del: escapeRun.simps)
    next
      case False
      obtain m where m: "f (take (escapeRun (c # t)) (c # t)) = Inr m"
        using assms by blast
      from False less [of "drop (escapeRun (c # t)) (c # t)"] Cons
      obtain r where "replaceRuns f (drop (escapeRun (c # t)) (c # t)) = Inr r"
        by (auto simp del: escapeRun.simps)
      with False m Cons show ?thesis by (simp del: escapeRun.simps)
    qed
  qed
qed

lemma decodeRuns_total: "\<exists>r. decodeRuns s decoder = Inr r"
  unfolding decodeRuns_def
  by (rule replaceRuns_total) (simp split: sum.split)

lemma tryDecode_total: "\<exists>r. tryDecode s decoder = Inr r"
  using decodeRuns_total [of s decoder]
  by (simp add: tryDecode_def split: sum.split)

text \<open>Escapes and concatenation.\<close>

lemma hexDigit_percent: "hexDigit 37 = None"
  by (simp add: hexDigit_def)

lemma escapeRun_le: "escapeRun s \<le> length s"
  by (induction s rule: escapeRun.induct) auto

lemma escapeRun_append_run:
  "escapeRun x = length x \<Longrightarrow> escapeRun (x @ t) = length x + escapeRun t"
proof (induction x rule: escapeRun.induct)
  case (1 p h l s)
  then show ?case by (auto split: if_splits)
qed simp_all

lemma escapeRun_append_zero:
  assumes "escapeRun x = 0" and "x \<noteq> []" and "t = [] \<or> hd t = 37"
  shows "escapeRun (x @ t) = 0"
proof (cases x)
  case Nil
  with assms show ?thesis by simp
next
  case c1: (Cons c x1)
  show ?thesis
  proof (cases x1)
    case Nil
    with c1 assms(3) show ?thesis
      by (cases t; cases "tl t") (auto simp: hexDigit_percent)
  next
    case c2: (Cons d x2)
    show ?thesis
    proof (cases x2)
      case Nil
      with c1 c2 assms(3) show ?thesis
        by (cases t) (auto simp: hexDigit_percent)
    next
      case (Cons e x3)
      with c1 c2 assms(1) show ?thesis by (auto split: if_splits)
    qed
  qed
qed

lemma take_3_plus: "take (3 + n) (a # b # c # s) = a # b # c # take n s"
  by (simp add: numeral_3_eq_3)

lemma drop_3_plus: "drop (3 + n) (a # b # c # s) = drop n s"
  by (simp add: numeral_3_eq_3)

lemma escapeRun_take: "escapeRun (take (escapeRun s) s) = escapeRun s"
  by (induction s rule: escapeRun.induct) (auto simp: take_3_plus)

lemma escapeRun_drop: "escapeRun (drop (escapeRun s) s) = 0"
  by (induction s rule: escapeRun.induct) (auto simp: drop_3_plus)

lemma length_take_escapeRun: "length (take (escapeRun s) s) = escapeRun s"
  using escapeRun_le [of s] by simp

lemma endsWithEscape_Cons:
  assumes "spec_endsWithEscape s"
  shows "spec_endsWithEscape (c # s)"
proof -
  from assms have l: "3 \<le> length s" and e: "escapeRun (drop (length s - 3) s) = 3"
    by (simp_all add: spec_endsWithEscape_def)
  from l have "length (c # s) - 3 = Suc (length s - 3)" by simp
  then have "drop (length (c # s) - 3) (c # s) = drop (length s - 3) s" by simp
  with l e show ?thesis by (simp add: spec_endsWithEscape_def)
qed

lemma endsWithEscape_drop:
  "spec_endsWithEscape (drop n s) \<Longrightarrow> spec_endsWithEscape s"
proof (induction n arbitrary: s)
  case 0
  then show ?case by simp
next
  case (Suc n)
  show ?case
  proof (cases s)
    case Nil
    with Suc.prems show ?thesis by simp
  next
    case (Cons c t)
    with Suc show ?thesis by (simp add: endsWithEscape_Cons)
  qed
qed

lemma endsWithEscape_run:
  "escapeRun s = length s \<Longrightarrow> s \<noteq> [] \<Longrightarrow> spec_endsWithEscape s"
proof (induction s rule: escapeRun.induct)
  case (1 p h l s)
  show ?case
  proof (cases "s = []")
    case True
    with 1 show ?thesis by (auto simp: spec_endsWithEscape_def split: if_splits)
  next
    case False
    with 1 have "spec_endsWithEscape s" by (auto split: if_splits)
    then show ?thesis by (intro endsWithEscape_Cons)
  qed
qed simp_all

lemma replaceRuns_no_escape:
  "(\<forall>i<length s. escapeRun (drop i s) = 0) \<Longrightarrow> replaceRuns f s = Inr s"
proof (induction s)
  case Nil
  then show ?case by simp
next
  case (Cons c s)
  from Cons.prems have 0: "escapeRun (c # s) = 0" by force
  have "\<forall>i<length s. escapeRun (drop i s) = 0"
  proof (intro allI impI)
    fix i assume "i < length s"
    with Cons.prems have "escapeRun (drop (Suc i) (c # s)) = 0" by force
    then show "escapeRun (drop i s) = 0" by simp
  qed
  with Cons.IH 0 show ?case by (simp del: escapeRun.simps)
qed

lemma take_prefix_le: "n \<le> length xs \<Longrightarrow> take n (xs @ ys) = take n xs"
  by simp

lemma drop_prefix_le: "n \<le> length xs \<Longrightarrow> drop n (xs @ ys) = drop n xs @ ys"
  by simp

lemma hd_run: "spec_isRun m \<Longrightarrow> hd m = 37"
  by (cases m rule: escapeRun.cases) (auto simp: spec_isRun_def split: if_splits)

lemma replaceRuns_at_run:
  assumes "spec_isRun m" and "\<not> spec_startsWithEscape b"
  shows "replaceRuns f (m @ b) =
           (case f m of Inl e \<Rightarrow> Inl e
            | Inr rm \<Rightarrow> (case replaceRuns f b of Inl e \<Rightarrow> Inl e | Inr rb \<Rightarrow> Inr (rm @ rb)))"
proof -
  from assms have e: "escapeRun (m @ b) = length m"
    by (simp add: spec_isRun_def spec_startsWithEscape_def escapeRun_append_run)
  from assms(1) obtain c t where ct: "m @ b = c # t" and "m \<noteq> []"
    by (cases m) (auto simp: spec_isRun_def)
  then have "escapeRun (c # t) \<noteq> 0" using e by simp
  moreover have "take (escapeRun (c # t)) (c # t) = m" "drop (escapeRun (c # t)) (c # t) = b"
    using e ct by (metis append_eq_conv_conj)+
  ultimately show ?thesis
    unfolding ct by (simp del: escapeRun.simps split: sum.split)
qed

lemma replaceRuns_split:
  assumes "spec_isRun m" and "\<not> spec_endsWithEscape a" and "\<not> spec_startsWithEscape b"
  shows "replaceRuns f (a @ m @ b) =
           (case replaceRuns f a of Inl e \<Rightarrow> Inl e
            | Inr ra \<Rightarrow>
                (case f m of Inl e \<Rightarrow> Inl e
                 | Inr rm \<Rightarrow>
                     (case replaceRuns f b of Inl e \<Rightarrow> Inl e
                      | Inr rb \<Rightarrow> Inr (ra @ rm @ rb))))"
  using assms(2)
proof (induction "length a" arbitrary: a rule: less_induct)
  case less
  have t: "m @ b = [] \<or> hd (m @ b) = 37"
    using assms(1) hd_run [of m] by (auto simp: spec_isRun_def)
  show ?case
  proof (cases a)
    case Nil
    with replaceRuns_at_run [OF assms(1,3), of f] show ?thesis
      by (simp split: sum.split)
  next
    case (Cons c s)
    show ?thesis
    proof (cases "escapeRun (c # s) = 0")
      case True
      then have z: "escapeRun (c # s @ m @ b) = 0"
        using escapeRun_append_zero [of "c # s" "m @ b"] t by simp
      have "\<not> spec_endsWithEscape s"
        using less.prems Cons endsWithEscape_Cons by blast
      with less.hyps [of s] Cons True z show ?thesis
        by (simp del: escapeRun.simps split: sum.split)
    next
      case False
      let ?k = "escapeRun (c # s)"
      let ?r = "take ?k (c # s)" and ?rest = "drop ?k (c # s)"
      have run: "escapeRun ?r = length ?r"
        by (simp only: escapeRun_take length_take_escapeRun)
      have rest0: "escapeRun ?rest = 0" by (rule escapeRun_drop)
      have "?rest \<noteq> []"
      proof
        assume "?rest = []"
        then have "?r = c # s" by (metis append_Nil2 append_take_drop_id)
        with run have "escapeRun (c # s) = length (c # s)" by simp
        then have "spec_endsWithEscape (c # s)" by (rule endsWithEscape_run) simp
        with less.prems Cons show False by simp
      qed
      with rest0 t have "escapeRun (?rest @ m @ b) = 0"
        by (intro escapeRun_append_zero) auto
      with run have "escapeRun (?r @ ?rest @ m @ b) = length ?r"
        by (simp only: escapeRun_append_run)
      then have k: "escapeRun (c # s @ m @ b) = ?k"
        by (metis append_Cons append_assoc append_take_drop_id length_take_escapeRun)
      have tk: "take ?k (c # s @ m @ b) = ?r"
        using take_prefix_le [OF escapeRun_le [of "c # s"], of "m @ b"] by simp
      have dr: "drop ?k (c # s @ m @ b) = ?rest @ m @ b"
        using drop_prefix_le [OF escapeRun_le [of "c # s"], of "m @ b"] by simp
      have "\<not> spec_endsWithEscape ?rest"
        using less.prems Cons endsWithEscape_drop by blast
      moreover have "length ?rest < length a"
        using False Cons by (simp del: escapeRun.simps)
      ultimately have ih: "replaceRuns f (?rest @ m @ b) =
           (case replaceRuns f ?rest of Inl e \<Rightarrow> Inl e
            | Inr ra \<Rightarrow>
                (case f m of Inl e \<Rightarrow> Inl e
                 | Inr rm \<Rightarrow>
                     (case replaceRuns f b of Inl e \<Rightarrow> Inl e
                      | Inr rb \<Rightarrow> Inr (ra @ rm @ rb))))"
        by (rule less.hyps [rotated])
      have "replaceRuns f (c # s @ m @ b) =
              (case f ?r of Inl e \<Rightarrow> Inl e
               | Inr x \<Rightarrow> (case replaceRuns f (?rest @ m @ b) of Inl e \<Rightarrow> Inl e
                           | Inr y \<Rightarrow> Inr (x @ y)))"
        using False by (simp only: replaceRuns.simps k tk dr if_False)
      moreover have "replaceRuns f (c # s) =
              (case f ?r of Inl e \<Rightarrow> Inl e
               | Inr x \<Rightarrow> (case replaceRuns f ?rest of Inl e \<Rightarrow> Inl e
                           | Inr y \<Rightarrow> Inr (x @ y)))"
        using False by (simp only: replaceRuns.simps if_False)
      ultimately show ?thesis
        unfolding Cons ih by (simp del: escapeRun.simps replaceRuns.simps split: sum.split)
    qed
  qed
qed

lemma decodeRuns_no_escape:
  "(\<forall>i<length s. \<not> spec_startsWithEscape (drop i s)) \<Longrightarrow> decodeRuns s decoder = Inr s"
  unfolding decodeRuns_def
  by (rule replaceRuns_no_escape) (simp add: spec_startsWithEscape_def)

lemma decodeRuns_split:
  assumes "spec_isRun m" and "\<not> spec_endsWithEscape a" and "\<not> spec_startsWithEscape b"
    and "decodeRuns a decoder = Inr ra" and "decodeRuns b decoder = Inr rb"
  shows "decodeRuns (a @ m @ b) decoder =
           Inr (ra @ (case decoder m of Inl e \<Rightarrow> m | Inr r \<Rightarrow> r) @ rb)"
  using assms(4,5) unfolding decodeRuns_def replaceRuns_split [OF assms(1-3)]
  by (simp split: sum.split)

lemma tryDecode_examples:
  "tryDecode (js ''100% done'') decodeURI = Inr (js ''100% done'')"
  "tryDecode (js ''%zz'') decodeURI = Inr (js ''%zz'')"
  "tryDecode (js ''100% done'') decodeURIComponent = Inr (js ''100% done'')"
  "tryDecode (js ''%zz'') decodeURIComponent = Inr (js ''%zz'')"
  by code_simp+

text \<open>
  C5. \<open>tryDecode\<close> never raises: for every string and every decoder it returns a string.
  When the decoder accepts the whole string, that is the result. When it throws, the
  result is that of the \<open>catch\<close> block, which leaves a string without escapes as it is,
  and which, around every maximal run of escapes \<open>m\<close> of the string \<open>a @ m @ b\<close>, works
  on \<open>a\<close> and \<open>b\<close> on their own and puts between them the decoding of \<open>m\<close> when the
  decoder accepts \<open>m\<close>, and \<open>m\<close> itself when it throws. \<open>100% done\<close> and \<open>%zz\<close> come
  back unchanged from \<open>decodeURI\<close> and from \<open>decodeURIComponent\<close>.
\<close>

theorem tryDecode_never_raises:
  "(\<exists>r. tryDecode s decoder = Inr r)
   \<and> (decoder s = Inr d \<longrightarrow> tryDecode s decoder = Inr d)
   \<and> (decoder s = Inl e \<longrightarrow> tryDecode s decoder = decodeRuns s decoder)
   \<and> ((\<forall>i<length s. \<not> spec_startsWithEscape (drop i s)) \<longrightarrow> decodeRuns s decoder = Inr s)
   \<and> (spec_isRun m \<and> \<not> spec_endsWithEscape a \<and> \<not> spec_startsWithEscape b
        \<and> decodeRuns a decoder = Inr ra \<and> decodeRuns b decoder = Inr rb \<longrightarrow>
      decodeRuns (a @ m @ b) decoder =
        Inr (ra @ (case decoder m of Inl x \<Rightarrow> m | Inr r \<Rightarrow> r) @ rb))
   \<and> tryDecode (js ''100% done'') decodeURI = Inr (js ''100% done'')
   \<and> tryDecode (js ''%zz'') decodeURI = Inr (js ''%zz'')
   \<and> tryDecode (js ''100% done'') decodeURIComponent = Inr (js ''100% done'')
   \<and> tryDecode (js ''%zz'') decodeURIComponent = Inr (js ''%zz'')"
  using tryDecode_total [of s decoder] decodeRuns_no_escape [of s decoder]
    decodeRuns_split [of m a b decoder ra rb] tryDecode_examples
  by (simp add: tryDecode_def)

theorem tryDecode_never_raises_witness:
  "tryDecode (js ''a%41%zz'') decodeURI = Inr (js ''aA%zz'')
   \<and> decodeRuns (js ''100% done'') decodeURI = Inr (js ''100% done'')"
proof -
  have 1: "decodeURI (js ''a%41%zz'') = Inl URIError" by code_simp
  have 2: "spec_isRun (js ''%41'')" "\<not> spec_endsWithEscape (js ''a'')"
    "\<not> spec_startsWithEscape (js ''%zz'')" by code_simp+
  have 3: "decodeRuns (js ''a'') decodeURI = Inr (js ''a'')"
    "decodeRuns (js ''%zz'') decodeURI = Inr (js ''%zz'')" by code_simp+
  have 4: "decodeURI (js ''%41'') = Inr (js ''A'')" by code_simp
  have 5: "\<forall>i<length (js ''100% done''). \<not> spec_startsWithEscape (drop i (js ''100% done''))"
    by (simp add: spec_startsWithEscape_def hexDigit_def less_Suc_eq)
  have s: "js ''a%41%zz'' = js ''a'' @ js ''%41'' @ js ''%zz''" by simp
  from tryDecode_never_raises [of "js ''a%41%zz''" decodeURI "js ''A''" URIError "js ''%41''"
      "js ''a''" "js ''%zz''" "js ''a''" "js ''%zz''"]
  have "tryDecode (js ''a%41%zz'') decodeURI = decodeRuns (js ''a%41%zz'') decodeURI"
    and "decodeRuns (js ''a'' @ js ''%41'' @ js ''%zz'') decodeURI = 
        Inr (js ''a'' @ (case decodeURI (js ''%41'') of Inl x \<Rightarrow> js ''%41'' | Inr r \<Rightarrow> r) @ js ''%zz'')"
    using 1 2 3 by blast+
  then have a: "tryDecode (js ''a%41%zz'') decodeURI = Inr (js ''aA%zz'')"
    unfolding 4 s by simp
  from tryDecode_never_raises [of "js ''100% done''" decodeURI] 5
  have "decodeRuns (js ''100% done'') decodeURI = Inr (js ''100% done'')" by blast
  with a show ?thesis by simp
qed

section \<open>getPath\<close>

lemma escapePercent_Cons_other:
  "c \<noteq> 37 \<Longrightarrow> escapePercent (c # s) = c # escapePercent s"
  by (cases s rule: escapePercent.cases) (auto split: if_splits)

lemma escapePercent_short: "length s < 3 \<Longrightarrow> escapePercent s = s"
  by (cases s rule: escapePercent.cases) auto

lemma escapePercent_keeps1: "\<exists>u. escapePercent (a # s) = a # u"
  by (cases "a # s" rule: escapePercent.cases) auto

lemma escapePercent_keeps2: "\<exists>u. escapePercent (a # b # s) = a # b # u"
proof (cases s)
  case Nil
  then show ?thesis by simp
next
  case (Cons c t)
  with escapePercent_keeps1 [of b "c # t"] show ?thesis by auto
qed

lemma escapePercent_keeps3: "\<exists>u. escapePercent (a # b # c # s) = a # b # c # u"
  using escapePercent_keeps2 [of b c s] by auto

lemma escapePercent_not25:
  "\<not> (b = 50 \<and> c = 53) \<Longrightarrow> escapePercent (37 # b # c # s) = 37 # escapePercent (b # c # s)"
  by auto

lemma hexDigit_lt: "hexDigit c = Some v \<Longrightarrow> v < 16"
  by (auto simp: hexDigit_def split: if_splits)

lemma hexOctet_25: "hexOctet 50 53 = Some 37"
  by (simp add: hexOctet_def hexDigit_def)

lemma hexOctet_37:
  assumes "hexOctet h l = Some 37"
  shows "h = 50 \<and> l = 53"
proof -
  from assms obtain a b where ab: "hexDigit h = Some a" "hexDigit l = Some b" "16 * a + b = 37"
    by (auto simp: hexOctet_def split: option.splits)
  from hexDigit_lt [OF ab(2)] ab(3) have "a = 2" "b = 5" by presburger+
  with ab(1,2) show ?thesis
    by (auto simp: hexDigit_def split: if_splits)
qed

lemma hexOctet_not_percent: "hexOctet h l = Some b \<Longrightarrow> h \<noteq> 37 \<and> l \<noteq> 37"
  by (auto simp: hexOctet_def hexDigit_percent split: option.splits)

lemma escapePercent_escape:
  assumes "hexOctet h l = Some b" and "b \<noteq> 37"
  shows "escapePercent (37 # h # l # s) = 37 # h # l # escapePercent s"
proof -
  from assms have "\<not> (h = 50 \<and> l = 53)" using hexOctet_25 by auto
  then have "escapePercent (37 # h # l # s) = 37 # escapePercent (h # l # s)"
    by (rule escapePercent_not25)
  also have "escapePercent (h # l # s) = h # l # escapePercent s"
    using hexOctet_not_percent [OF assms(1)]
    by (simp add: escapePercent_Cons_other del: escapePercent.simps)
  finally show ?thesis .
qed

lemma contOctets_escapePercent:
  "contOctets k (escapePercent t) =
     map_option (\<lambda>(bs, r). (bs, escapePercent r)) (contOctets k t)"
proof (induction k arbitrary: t)
  case 0
  then show ?case by simp
next
  case (Suc k)
  show ?case
  proof (cases t rule: escapeRun.cases)
    case (1 p h l s)
    obtain u where u: "escapePercent (p # h # l # s) = p # h # l # u"
      using escapePercent_keeps3 by blast
    show ?thesis
    proof (cases "p = 37 \<and> (\<exists>b. hexOctet h l = Some b \<and> isCont b)")
      case True
      then obtain b where b: "p = 37" "hexOctet h l = Some b" "isCont b" by blast
      then have "b \<noteq> 37" by (auto simp: isCont_def)
      from escapePercent_escape [OF b(2) this, of s] b 1 Suc.IH [of s]
      show ?thesis by (simp del: escapePercent.simps split: option.split)
    next
      case False
      with 1 u show ?thesis
        by (auto simp del: escapePercent.simps split: option.split)
    qed
  qed (simp_all add: escapePercent_short)
qed

lemma Decode_at_escape:
  assumes "hexOctet h l = Some b"
  shows "Decode R (37 # h # l # t) =
     (if leadingOnes b = 0 then
        (case Decode R t of
           Inl e \<Rightarrow> Inl e
         | Inr r \<Rightarrow> Inr ((if b \<in> set R then [37, h, l] else [b]) @ r))
      else if leadingOnes b = 1 \<or> 4 < leadingOnes b then Inl URIError
      else
        (case contOctets (leadingOnes b - 1) t of
           None \<Rightarrow> Inl URIError
         | Some (bs, t') \<Rightarrow>
             (case utf8Value (b # bs) of
                None \<Rightarrow> Inl URIError
              | Some v \<Rightarrow>
                  (case Decode R t' of
                     Inl e \<Rightarrow> Inl e
                   | Inr r \<Rightarrow> Inr (utf16Encode v @ r)))))"
  using assms by simp

lemma Decode_plain:
  "c \<noteq> 37 \<Longrightarrow>
   Decode R (c # s) = (case Decode R s of Inl e \<Rightarrow> Inl e | Inr r \<Rightarrow> Inr (c # r))"
  by simp

lemma Decode_at_25:
  "Decode R (37 # 50 # 53 # t) =
     (case Decode R t of Inl e \<Rightarrow> Inl e
      | Inr r \<Rightarrow> Inr ((if 37 \<in> set R then [37, 50, 53] else [37]) @ r))"
  unfolding Decode_at_escape [OF hexOctet_25] by (simp add: leadingOnes_def)

lemma Decode_short: "Decode R [37] = Inl URIError" "Decode R [37, x] = Inl URIError"
  by simp_all

lemma Decode_escapePercent_plain:
  assumes "c \<noteq> 37" and "Decode R (escapePercent s) = Decode (37 # R) s"
  shows "Decode R (escapePercent (c # s)) = Decode (37 # R) (c # s)"
  using assms by (simp add: escapePercent_Cons_other del: escapePercent.simps)

lemma Decode_escapePercent_25:
  assumes "37 \<notin> set R" and "Decode R (escapePercent t) = Decode (37 # R) t"
  shows "Decode R (escapePercent (37 # 50 # 53 # t)) = Decode (37 # R) (37 # 50 # 53 # t)"
proof -
  have "Decode R (escapePercent (37 # 50 # 53 # t)) =
          Decode R (37 # 50 # 53 # 50 # 53 # escapePercent t)"
    by simp
  also have "\<dots> = (case Decode R (50 # 53 # escapePercent t) of Inl e \<Rightarrow> Inl e
      | Inr r \<Rightarrow> Inr (37 # r))"
    using assms(1) by (simp only: Decode_at_25 if_False append_Cons append_Nil)
  also have "Decode R (50 # 53 # escapePercent t) =
      (case Decode R (escapePercent t) of Inl e \<Rightarrow> Inl e | Inr r \<Rightarrow> Inr (50 # 53 # r))"
    by (simp add: Decode_plain del: Decode.simps split: sum.split)
  finally show ?thesis
    unfolding assms(2) Decode_at_25 [of "37 # R"]
    by (simp del: Decode.simps split: sum.split)
qed

lemma Decode_escapePercent_bad:
  assumes "hexOctet h l = None"
  shows "Decode R (escapePercent (37 # h # l # t)) = Decode (37 # R) (37 # h # l # t)"
proof -
  obtain u where "escapePercent (37 # h # l # t) = 37 # h # l # u"
    using escapePercent_keeps3 by blast
  with assms show ?thesis by (simp del: escapePercent.simps)
qed

lemma Decode_escapePercent_escape:
  assumes esc: "hexOctet h l = Some b" "b \<noteq> 37"
    and 1: "Decode R (escapePercent t) = Decode (37 # R) t"
    and 2: "\<And>bs t'. contOctets (leadingOnes b - 1) t = Some (bs, t') \<Longrightarrow>
              Decode R (escapePercent t') = Decode (37 # R) t'"
  shows "Decode R (escapePercent (37 # h # l # t)) = Decode (37 # R) (37 # h # l # t)"
proof -
  have e: "escapePercent (37 # h # l # t) = 37 # h # l # escapePercent t"
    using esc by (rule escapePercent_escape)
  have mem: "(b \<in> set (37 # R)) = (b \<in> set R)"
    using esc(2) by simp
  show ?thesis
  proof (cases "contOctets (leadingOnes b - 1) t")
    case None
    then have "contOctets (leadingOnes b - 1) (escapePercent t) = None"
      by (simp add: contOctets_escapePercent)
    with None show ?thesis
      unfolding e Decode_at_escape [OF esc(1)] 1 mem by simp
  next
    case (Some r)
    obtain bs t' where r: "r = (bs, t')" by (cases r)
    have "contOctets (leadingOnes b - 1) (escapePercent t) = Some (bs, escapePercent t')"
      using Some r by (simp add: contOctets_escapePercent)
    with Some r 2 [of bs t'] show ?thesis
      unfolding e Decode_at_escape [OF esc(1)] 1 mem by (simp split: option.split)
  qed
qed

lemma Decode_escapePercent:
  assumes "37 \<notin> set R"
  shows "Decode R (escapePercent p) = Decode (37 # R) p"
proof (induction "length p" arbitrary: p rule: less_induct)
  case less
  show ?case
  proof (cases p)
    case Nil
    then show ?thesis by simp
  next
    case (Cons c s)
    show ?thesis
    proof (cases "c = 37")
      case False
      with Cons less [of s] show ?thesis
        by (simp add: Decode_escapePercent_plain del: Decode.simps escapePercent.simps)
    next
      case c: True
      show ?thesis
      proof (cases "\<exists>h l t. s = h # l # t")
        case False
        then have "s = [] \<or> (\<exists>x. s = [x])"
          by (cases s; cases "tl s") auto
        with Cons c show ?thesis
          by (auto simp: Decode_short simp del: Decode.simps)
      next
        case True
        then obtain h l t where "s = h # l # t" by blast
        then have p: "p = 37 # h # l # t" using Cons c by simp
        have 1: "Decode R (escapePercent t) = Decode (37 # R) t"
          using less [of t] p by simp
        show ?thesis
        proof (cases "hexOctet h l")
          case None
          then show ?thesis unfolding p by (rule Decode_escapePercent_bad)
        next
          case (Some b)
          show ?thesis
          proof (cases "b = 37")
            case True
            with Some have hl: "h = 50" "l = 53" using hexOctet_37 by blast+
            from assms 1 show ?thesis
              unfolding p hl by (rule Decode_escapePercent_25)
          next
            case False
            have "Decode R (escapePercent t') = Decode (37 # R) t'"
              if "contOctets (leadingOnes b - 1) t = Some (bs, t')" for bs t'
              using less [of t'] contOctets_length [OF that] p by simp
            with Some False 1 show ?thesis
              unfolding p by (intro Decode_escapePercent_escape)
          qed
        qed
      qed
    qed
  qed
qed

lemma contOctets_append:
  "contOctets k t = Some (bs, t') \<Longrightarrow> contOctets k (t @ u) = Some (bs, t' @ u)"
proof (induction k arbitrary: t bs)
  case 0
  then show ?case by simp
next
  case (Suc k)
  from Suc.prems obtain h l s where t: "t = 37 # h # l # s"
    by (cases "(Suc k, t)" rule: contOctets.cases) (auto split: if_splits)
  from Suc.prems obtain b cs where b: "hexOctet h l = Some b" "isCont b"
    and cs: "contOctets k s = Some (cs, t')" and bs: "bs = b # cs"
    unfolding t by (auto split: if_splits option.splits)
  from Suc.IH [OF cs] b bs show ?case unfolding t by simp
qed

lemma Decode_append:
  "Decode R a = Inr ra \<Longrightarrow>
   Decode R (a @ u) = (case Decode R u of Inl e \<Rightarrow> Inl e | Inr ru \<Rightarrow> Inr (ra @ ru))"
proof (induction "length a" arbitrary: a ra rule: less_induct)
  case less
  show ?case
  proof (cases a)
    case Nil
    with less.prems show ?thesis by (simp split: sum.split)
  next
    case (Cons c s)
    show ?thesis
    proof (cases "c = 37")
      case False
      with less.prems Cons obtain rs where rs: "Decode R s = Inr rs" and ra: "ra = c # rs"
        by (auto simp: Decode_plain simp del: Decode.simps split: sum.splits)
      from less.hyps [OF _ rs] Cons False ra show ?thesis
        by (simp add: Decode_plain del: Decode.simps split: sum.split)
    next
      case True
      with less.prems Cons obtain h l t b where s: "s = h # l # t" and b: "hexOctet h l = Some b"
        by (auto split: list.splits option.splits)
      have a: "a = 37 # h # l # t" using Cons True s by simp
      have au: "a @ u = 37 # h # l # (t @ u)" using a by simp
      show ?thesis
      proof (cases "leadingOnes b = 0")
        case z: True
        with less.prems obtain rt where rt: "Decode R t = Inr rt"
          and ra: "ra = (if b \<in> set R then [37, h, l] else [b]) @ rt"
          unfolding a Decode_at_escape [OF b] by (auto split: sum.splits)
        from less.hyps [OF _ rt] a z ra show ?thesis
          unfolding au Decode_at_escape [OF b] by (simp split: sum.split)
      next
        case nz: False
        with less.prems obtain bs t' v r where
          n: "\<not> (leadingOnes b = 1 \<or> 4 < leadingOnes b)"
          and co: "contOctets (leadingOnes b - 1) t = Some (bs, t')"
          and v: "utf8Value (b # bs) = Some v" and r: "Decode R t' = Inr r"
          and ra: "ra = utf16Encode v @ r"
          unfolding a Decode_at_escape [OF b]
          by (auto split: sum.splits option.splits if_splits)
        have "length t' < length a"
          using contOctets_length [OF co] a by simp
        from less.hyps [OF this r] nz n v ra contOctets_append [OF co, of u] show ?thesis
          unfolding au Decode_at_escape [OF b] by (simp split: sum.split)
      qed
    qed
  qed
qed

lemma takeWhile_until:
  "c \<notin> set a \<Longrightarrow> b \<noteq> [] \<Longrightarrow> hd b = c \<Longrightarrow> takeWhile (\<lambda>x. x \<noteq> c) (a @ b) = a"
  by (induction a) (auto simp: neq_Nil_conv)

lemma find_at_first:
  assumes "c \<notin> set a" and "b \<noteq> []" and "hd b = c"
  shows "find_at [c] (a @ b) = Some (length a)"
  using assms takeWhile_until [OF assms] by (cases b) (auto simp: find_at_single)

lemma indexOf_first:
  assumes "k \<le> length a" and "c \<notin> set (drop k a)" and "b \<noteq> []" and "hd b = c"
  shows "indexOf (a @ b) [c] (int k) = int (length a)"
proof -
  have "find_at [c] (drop k a @ b) = Some (length a - k)"
    using find_at_first [OF assms(2-4)] by simp
  with assms(1) show ?thesis by (simp add: indexOf_def)
qed

lemma indexOf_none:
  assumes "k \<le> length a" and "c \<notin> set (drop k a)"
  shows "indexOf a [c] (int k) = - 1"
  using assms by (simp add: indexOf_def find_at_single)

lemma slice_middle:
  "slice (a @ p @ r) (int (length a)) (Some (int (length a + length p))) = p"
  by (simp add: slice_def relIndex_def)

lemma slice_rest: "slice (a @ p) (int (length a)) None = p"
  by (simp add: slice_def relIndex_def)

lemma charCodeAt_append:
  "charCodeAt (a @ c # b) (int (length a)) = Some c"
  by (simp add: charCodeAt_def)

lemma escapePercent_id: "\<not> includesStr s (js ''%25'') \<Longrightarrow> escapePercent s = s"
proof (induction s rule: escapePercent.induct)
  case (1 a b c s)
  then show ?case by (auto simp: includesStr_def split: if_splits)
qed simp_all

lemma escapePercent_cond:
  "(if includesStr s (js ''%25'') then escapePercent s else s) = escapePercent s"
  using escapePercent_id [of s] by auto

lemma scanPath_path:
  assumes "cu CHR ''?'' \<notin> set (p1 @ p2)" and "rest = [] \<or> hd rest = cu CHR ''?''"
  shows "scanPath (origin @ (p1 @ p2) @ rest) (int (length origin))
           (int (length origin + length p1)) =
         (if cu CHR ''%'' \<in> set p2 then tryDecodeURI (escapePercent (p1 @ p2))
          else Inr (p1 @ p2))"
  using assms(1)
proof (induction p2 arbitrary: p1)
  case Nil
  let ?url = "origin @ (p1 @ []) @ rest"
  show ?case
  proof (cases rest)
    case Nil
    then show ?thesis
      using slice_rest [of origin p1]
      by (subst scanPath.simps) (simp add: slice_def relIndex_def)
  next
    case (Cons q rest')
    with assms(2) have q: "q = 63" by simp
    have "charCodeAt (origin @ p1 @ q # rest') (int (length (origin @ p1))) = Some q"
      by (simp only: charCodeAt_append append_assoc [symmetric])
    then have cc: "charCodeAt (origin @ p1 @ q # rest') (int (length origin) + int (length p1)) = Some q"
      by simp
    show ?thesis
      using slice_middle [of origin p1 "rest"] Cons q cc
      by (subst scanPath.simps) simp
  qed
next
  case (Cons c p2)
  let ?url = "origin @ (p1 @ c # p2) @ rest"
  have "charCodeAt ((origin @ p1) @ c # (p2 @ rest)) (int (length (origin @ p1))) = Some c"
    by (rule charCodeAt_append)
  then have cc: "charCodeAt ?url (int (length origin + length p1)) = Some c"
    by simp
  have lt: "int (length origin + length p1) < int (length ?url)" by simp
  have c63: "c \<noteq> 63" using Cons.prems by simp
  show ?case
  proof (cases "c = 37")
    case True
    have qi: "indexOf ?url (js ''?'') (int (length origin + length p1)) =
                (if rest = [] then - 1 else int (length origin + length (p1 @ c # p2)))"
    proof (cases "rest = []")
      case True
      have "indexOf ((origin @ p1) @ c # p2) [63] (int (length (origin @ p1))) = - 1"
        using Cons.prems by (intro indexOf_none) auto
      with True show ?thesis by simp
    next
      case False
      have "indexOf (((origin @ p1) @ c # p2) @ rest) [63] (int (length (origin @ p1))) =
              int (length ((origin @ p1) @ c # p2))"
        using Cons.prems False assms(2) by (intro indexOf_first) auto
      with False show ?thesis by simp
    qed
    have sl: "slice ?url (int (length origin))
                (if (if rest = [] then - 1 else int (length origin + length (p1 @ c # p2))) = - 1
                 then None else Some (if rest = [] then - 1 else int (length origin + length (p1 @ c # p2))))
              = p1 @ c # p2"
      using slice_middle [of origin "p1 @ c # p2" rest] slice_rest [of origin "p1 @ c # p2"]
      by (cases "rest = []") simp_all
    have rhs: "cu CHR ''%'' \<in> set (37 # p2)" by simp
    show ?thesis
      unfolding True
      by (subst scanPath.simps)
        (simp only: lt [unfolded True] cc [unfolded True] qi [unfolded True] sl [unfolded True]
          Let_def escapePercent_cond rhs if_True refl)
  next
    case False
    have "scanPath (origin @ ((p1 @ [c]) @ p2) @ rest) (int (length origin))
            (int (length origin + length (p1 @ [c]))) =
          (if cu CHR ''%'' \<in> set p2 then tryDecodeURI (escapePercent ((p1 @ [c]) @ p2))
           else Inr ((p1 @ [c]) @ p2))"
      using Cons.prems by (intro Cons.IH) simp
    then have ih: "scanPath ?url (int (length origin)) (int (length origin + length p1) + 1) =
          (if cu CHR ''%'' \<in> set p2 then tryDecodeURI (escapePercent (p1 @ c # p2))
           else Inr (p1 @ c # p2))"
      by (simp add: add.commute add.left_commute)
    have rhs: "(cu CHR ''%'' \<in> set (c # p2)) = (cu CHR ''%'' \<in> set p2)"
      using False by simp
    show ?thesis
      by (subst scanPath.simps)
        (simp only: lt cc ih rhs False c63 option.inject if_True if_False)
  qed
qed

lemma getPath_parts:
  assumes "spec_urlParts origin path rest"
    and "spec_authorityStart origin
           \<le> (if charCodeAt (origin @ path @ rest) 9 = Some 58 then 13 else 8)"
    and "(if charCodeAt (origin @ path @ rest) 9 = Some 58 then 13 else 8) \<le> length origin"
  shows "getPath (origin @ path @ rest) =
           (if cu CHR ''%'' \<in> set path then tryDecodeURI (escapePercent path) else Inr path)"
proof -
  let ?url = "origin @ path @ rest"
  define k :: nat where "k = (if charCodeAt ?url 9 = Some 58 then 13 else 8)"
  have ki: "(if charCodeAt ?url 9 = Some 58 then 13 else 8) = int k"
    by (simp add: k_def)
  from assms(2,3) have a: "spec_authorityStart origin \<le> k" and k: "k \<le> length origin"
    by (simp_all add: k_def)
  from assms(1) have p: "path \<noteq> []" "hd path = cu CHR ''/''"
    and q: "cu CHR ''?'' \<notin> set ([] @ path)" and r: "rest = [] \<or> hd rest = cu CHR ''?''"
    by (simp_all add: spec_urlParts_def)
  from assms(1) have "cu CHR ''/'' \<notin> set (drop (spec_authorityStart origin) origin)"
    by (auto simp: spec_urlParts_def list_ex_iff)
  with set_drop_subset_set_drop [OF a, of origin]
  have ns: "cu CHR ''/'' \<notin> set (drop k origin)" by blast
  have "indexOf (origin @ (path @ rest)) [cu CHR ''/''] (int k) = int (length origin)"
    using k ns p by (intro indexOf_first) auto
  then have start: "indexOf ?url (js ''/'') (int k) = int (length origin)" by simp
  have "scanPath (origin @ ([] @ path) @ rest) (int (length origin))
           (int (length origin + length ([] :: jsstr))) =
         (if cu CHR ''%'' \<in> set path then tryDecodeURI (escapePercent ([] @ path))
          else Inr ([] @ path))"
    using q r by (rule scanPath_path)
  then have "scanPath ?url (int (length origin)) (int (length origin)) =
         (if cu CHR ''%'' \<in> set path then tryDecodeURI (escapePercent path) else Inr path)"
    by simp
  then show ?thesis
    unfolding getPath_def ki start Let_def .
qed

lemma tryDecodeURI_keepPercent:
  assumes "spec_decodeKeepPercent path = Inr r"
  shows "tryDecodeURI (escapePercent path) = Inr r"
proof -
  have "decodeURI (escapePercent path) = spec_decodeKeepPercent path"
    unfolding decodeURI_def spec_decodeKeepPercent_def
    using Decode_escapePercent [of "js '';/?:@&=+$,#''" path] by simp
  with assms show ?thesis by (simp add: tryDecodeURI_def tryDecode_def)
qed

lemma keepPercent_25:
  assumes "spec_decodeKeepPercent a = Inr ra" and "spec_decodeKeepPercent b = Inr rb"
  shows "spec_decodeKeepPercent (a @ js ''%25'' @ b) = Inr (ra @ js ''%25'' @ rb)"
proof -
  let ?R = "js ''%;/?:@&=+$,#''"
  have "Decode ?R (37 # 50 # 53 # b) = Inr (37 # 50 # 53 # rb)"
    using assms(2) unfolding Decode_at_25 spec_decodeKeepPercent_def by simp
  with Decode_append [of ?R a ra "37 # 50 # 53 # b"] assms(1) show ?thesis
    unfolding spec_decodeKeepPercent_def by simp
qed

lemma getPath_examples:
  "getPath (js ''http://localhost/a/b?x=1'') = Inr (js ''/a/b'')"
  "getPath (js ''http://localhost/a%20b'') = Inr (js ''/a b'')"
  by code_simp+

text \<open>
  C1 (as amended). \<open>getPath\<close> returns the path between the authority and the first
  \<open>?\<close>: \<open>/a/b\<close> for \<open>http://localhost/a/b?x=1\<close> and \<open>/a b\<close> for
  \<open>http://localhost/a%20b\<close>. In general, take a URL made of scheme, \<open>://\<close>, authority,
  path and query in which the offset where \<open>getPath\<close> starts to look for the path (8,
  or 13 when the code unit at offset 9 is a colon) lies in the authority, that is, neither
  before its first code unit nor behind the slash that starts the path. Then a path
  without \<open>%\<close> is returned as it stands, and a path with a \<open>%\<close> whose escapes are well
  formed is decoded once, as \<open>decodeURI\<close> does, except that the escape \<open>%25\<close> is not
  decoded at all: wherever the path holds \<open>%25\<close>, the result holds the text \<open>%25\<close>.
\<close>

theorem getPath_decodes_once:
  "getPath (js ''http://localhost/a/b?x=1'') = Inr (js ''/a/b'')
   \<and> getPath (js ''http://localhost/a%20b'') = Inr (js ''/a b'')
   \<and> (spec_urlParts origin path rest
        \<and> spec_authorityStart origin
              \<le> (if charCodeAt (origin @ path @ rest) 9 = Some 58 then 13 else 8)
        \<and> (if charCodeAt (origin @ path @ rest) 9 = Some 58 then 13 else 8) \<le> length origin
        \<and> cu CHR ''%'' \<notin> set path \<longrightarrow>
        getPath (origin @ path @ rest) = Inr path)
   \<and> (spec_urlParts origin path rest
        \<and> spec_authorityStart origin
              \<le> (if charCodeAt (origin @ path @ rest) 9 = Some 58 then 13 else 8)
        \<and> (if charCodeAt (origin @ path @ rest) 9 = Some 58 then 13 else 8) \<le> length origin
        \<and> cu CHR ''%'' \<in> set path
        \<and> spec_decodeKeepPercent path = Inr r \<longrightarrow>
        getPath (origin @ path @ rest) = Inr r)
   \<and> (spec_decodeKeepPercent a = Inr ra \<and> spec_decodeKeepPercent b = Inr rb \<longrightarrow>
        spec_decodeKeepPercent (a @ js ''%25'' @ b) = Inr (ra @ js ''%25'' @ rb))"
  using getPath_examples getPath_parts [of origin path rest]
    tryDecodeURI_keepPercent [of path r] keepPercent_25 [of a ra b rb]
  by auto

theorem getPath_decodes_once_witness:
  "getPath (js ''http://localhost/a%25b?x=1'') = Inr (js ''/a%25b'')
   \<and> getPath (js ''http://localhost/a?x'') = Inr (js ''/a'')
   \<and> spec_decodeKeepPercent (js ''/a%25b'') = Inr (js ''/a%25b'')"
proof -
  have 1: "spec_urlParts (js ''http://localhost'') (js ''/a%25b'') (js ''?x=1'')"
    "spec_urlParts (js ''http://localhost'') (js ''/a'') (js ''?x'')"
    by code_simp+
  have o: "spec_authorityStart (js ''http://localhost'') = 7"
    "charCodeAt (js ''http://localhost'' @ js ''/a%25b'' @ js ''?x=1'') 9 = Some 99"
    "charCodeAt (js ''http://localhost'' @ js ''/a'' @ js ''?x'') 9 = Some 99"
    by code_simp+
  have 2: "spec_decodeKeepPercent (js ''/a'') = Inr (js ''/a'')"
    "spec_decodeKeepPercent (js ''b'') = Inr (js ''b'')"
    by code_simp+
  have 3: "spec_decodeKeepPercent (js ''/a'' @ js ''%25'' @ js ''b'') =
             Inr (js ''/a'' @ js ''%25'' @ js ''b'')"
    using getPath_decodes_once [of _ _ _ _ "js ''/a''" "js ''/a''" "js ''b''" "js ''b''"] 2
    by blast
  then have 4: "spec_decodeKeepPercent (js ''/a%25b'') = Inr (js ''/a%25b'')" by simp
  have "getPath (js ''http://localhost'' @ js ''/a%25b'' @ js ''?x=1'') = Inr (js ''/a%25b'')"
    using getPath_decodes_once [of "js ''http://localhost''" "js ''/a%25b''" "js ''?x=1''"
        "js ''/a%25b''"] 1 4
    unfolding o by simp
  moreover have "getPath (js ''http://localhost'' @ js ''/a'' @ js ''?x'') = Inr (js ''/a'')"
    using getPath_decodes_once [of "js ''http://localhost''" "js ''/a''" "js ''?x''"] 1
    unfolding o by simp
  ultimately show ?thesis using 4 by simp
qed

text \<open>
  C1 as the specification states it fails: the path \<open>/a%25b\<close> comes back as \<open>/a%25b\<close>,
  not as \<open>/a%b\<close>.
\<close>

theorem getPath_percent25_counterexample:
  "getPath (js ''http://localhost/a%25b'') = Inr (js ''/a%25b'')
   \<and> getPath (js ''http://localhost/a%25b'') \<noteq> Inr (js ''/a%b'')"
  by code_simp

text \<open>
  Where the offset lies behind the slash that starts the path, the search passes it and
  the result starts at a later slash: with the one-letter host \<open>a\<close> and a port, the code
  unit at offset 9 is the colon before the port, the search starts at offset 13, and
  \<open>/x\<close> is lost. The amended claim says nothing of such a URL.
\<close>

lemma getPath_offset_behind_path:
  "getPath (js ''https://a:80/x/y'') = Inr (js ''/y'')"
  "getPath (js ''https://a:80/x%25y/z'') = Inr (js ''/z'')"
  by code_simp+

section \<open>getPattern\<close>

lemma matchLabel_examples:
  "matchLabel (js '':id'') = Some (js ''id'', None)"
  "matchLabel (js '':id{[0-9]+}'') = Some (js ''id'', Some (js ''[0-9]+''))"
  "matchLabel (js ''literal'') = None"
  by code_simp+

lemma regExpTest_digits:
  "regExpTest (RegExp (js ''^[0-9]+$'')) (js ''123'') = Some True"
  "regExpTest (RegExp (js ''^[0-9]+$'')) (js ''abc'') = Some False"
  "regExpTest (RegExp (js ''^[0-9]+$'')) (js ''123abc'') = Some False"
  "regExpTest (RegExp (js ''^[0-9]+$'')) (js ''x123'') = Some False"
  by code_simp+

lemma getPattern_wildcard: "getPattern valid (js ''*'') next st = (Inr (Some Wildcard), st)"
  by (simp add: getPattern_def)

lemma getPattern_id:
  assumes "patternCache st (js '':id#undefined'') = None"
  shows "fst (getPattern valid (js '':id'') None st) =
           Inr (Some (Capture (js '':id'') (js ''id'') Always))"
  using assms unfolding getPattern_def matchLabel_examples Let_def
  by (simp add: template_def)

lemma getPattern_digits:
  assumes "patternCache st (js '':id{[0-9]+}#undefined'') = None" and "valid (js ''^[0-9]+$'')"
  shows "fst (getPattern valid (js '':id{[0-9]+}'') None st) =
           Inr (Some (Capture (js '':id{[0-9]+}'') (js ''id'')
                  (Matching (RegExp (js ''^[0-9]+$'')))))"
  using assms unfolding getPattern_def matchLabel_examples Let_def
  by (simp add: template_def usableHint_def compilePattern_def newRegExp_def)

lemma takeWhile_notBrace: "list_all notBrace (takeWhile notBrace s)"
  by (induction s) auto

lemma matchLabel_Some_spec:
  assumes "matchLabel label = Some (name, brace)"
  shows "spec_parameterLabel label"
proof -
  from assms obtain rest where l: "label = 58 # rest"
    by (cases label) (auto simp: matchLabel_def split: if_splits)
  define n where "n = takeWhile notBrace rest"
  define t where "t = dropWhile notBrace rest"
  have rest: "rest = n @ t" by (simp add: n_def t_def)
  have nb: "list_all notBrace n" unfolding n_def by (rule takeWhile_notBrace)
  have m: "matchLabel label =
             (if n = [] then None
              else if t = [] then Some (n, None)
              else if hd t = cu CHR ''{'' \<and> 3 \<le> length t \<and> last t = cu CHR ''}''
                      \<and> \<not> list_ex lineTerminator (butlast (tl t))
              then Some (n, Some (butlast (tl t)))
              else None)"
    unfolding l matchLabel_def n_def t_def by (simp add: Let_def)
  from assms m have n: "n \<noteq> []" by (auto split: if_splits)
  show ?thesis
  proof (cases "t = []")
    case True
    with rest l have "label = js '':'' @ n" by simp
    with n nb show ?thesis
      unfolding spec_parameterLabel_def by blast
  next
    case False
    with assms m n have t: "hd t = 123" "3 \<le> length t" "last t = 125"
      "\<not> list_ex lineTerminator (butlast (tl t))"
      by (auto split: if_splits)
    from False obtain h t1 where t1: "t = h # t1" by (cases t) auto
    with t(2) have "t1 \<noteq> []" by auto
    then obtain c e where t2: "t1 = c @ [e]" by (cases t1 rule: rev_cases) auto
    with t1 t(2) have c: "c \<noteq> []" by auto
    from t1 t2 t(1,3) have he: "h = 123" "e = 125" by auto
    from t1 t2 t(4) have lt: "\<not> list_ex lineTerminator c" by simp
    from rest l t1 t2 he have "label = js '':'' @ n @ js ''{'' @ c @ js ''}''" by simp
    with n nb c lt show ?thesis
      unfolding spec_parameterLabel_def by blast
  qed
qed

lemma takeWhile_all: "list_all P xs \<Longrightarrow> takeWhile P (xs @ y # ys) = xs @ takeWhile P (y # ys)"
  by (induction xs) auto

lemma dropWhile_all: "list_all P xs \<Longrightarrow> dropWhile P (xs @ ys) = dropWhile P ys"
  by (induction xs) auto

lemma spec_matchLabel_Some:
  assumes "spec_parameterLabel label"
  shows "matchLabel label \<noteq> None"
proof -
  from assms obtain name where n: "name \<noteq> []" "list_all notBrace name"
    and d: "label = js '':'' @ name
            \<or> (\<exists>c. c \<noteq> [] \<and> \<not> list_ex lineTerminator c
                  \<and> label = js '':'' @ name @ js ''{'' @ c @ js ''}'')"
    unfolding spec_parameterLabel_def by blast
  from d show ?thesis
  proof
    assume "label = js '':'' @ name"
    then have l: "label = 58 # name" by simp
    have tw: "takeWhile notBrace name = name" and dw: "dropWhile notBrace name = []"
      using n(2) by (simp_all add: list_all_iff)
    from n(1) show ?thesis unfolding l matchLabel_def by (simp add: Let_def tw dw)
  next
    assume "\<exists>c. c \<noteq> [] \<and> \<not> list_ex lineTerminator c
                  \<and> label = js '':'' @ name @ js ''{'' @ c @ js ''}''"
    then obtain c where c: "c \<noteq> []" "\<not> list_ex lineTerminator c"
      and "label = js '':'' @ name @ js ''{'' @ c @ js ''}''" by blast
    then have l: "label = 58 # (name @ 123 # (c @ [125]))" by simp
    have tw: "takeWhile notBrace (name @ 123 # (c @ [125])) = name"
      using n(2) by (simp add: takeWhile_all notBrace_def)
    have dw: "dropWhile notBrace (name @ 123 # (c @ [125])) = 123 # (c @ [125])"
      using n(2) by (simp add: dropWhile_all notBrace_def)
    from c(1) have "Suc 0 \<le> length c" by (cases c) auto
    with n(1) c show ?thesis
      unfolding l matchLabel_def by (simp add: Let_def tw dw)
  qed
qed

lemma matchLabel_None_iff: "(matchLabel label = None) = (\<not> spec_parameterLabel label)"
  using matchLabel_Some_spec [of label] spec_matchLabel_Some [of label]
  by (cases "matchLabel label") auto

lemma getPattern_None_iff:
  "(fst (getPattern valid label next st) = Inr None) =
     (label \<noteq> js ''*'' \<and> \<not> spec_parameterLabel label)"
proof (cases "label = js ''*''")
  case True
  then show ?thesis by (simp add: getPattern_def)
next
  case False
  show ?thesis
  proof (cases "matchLabel label")
    case None
    with False matchLabel_None_iff [of label] show ?thesis
      by (simp add: getPattern_def)
  next
    case (Some r)
    with matchLabel_None_iff [of label] have "spec_parameterLabel label" by simp
    moreover from Some False have "fst (getPattern valid label next st) \<noteq> Inr None"
      by (auto simp: getPattern_def Let_def compilePattern_def split: option.splits sum.splits prod.splits)
    ultimately show ?thesis by simp
  qed
qed

lemma getPattern_not_label:
  assumes "label \<noteq> js ''*''" and "\<not> spec_parameterLabel label"
  shows "getPattern valid label next st = (Inr None, st)"
  using assms matchLabel_None_iff [of label] by (simp add: getPattern_def)

lemma literal_not_label: "\<not> spec_parameterLabel (js ''literal'')"
  using matchLabel_None_iff [of "js ''literal''"] matchLabel_examples(3) by simp

text \<open>
  \<open>getPattern\<close> by cases, for a call that finds no entry under its cache key: \<open>*\<close> gives
  the wildcard; \<open>:id\<close> gives an unconstrained capture named \<open>id\<close>; \<open>:id{[0-9]+}\<close>
  without a hint gives a capture whose constraint is \<open>^[0-9]+$\<close>, which accepts \<open>123\<close>
  and rejects \<open>abc\<close>, \<open>123abc\<close> and \<open>x123\<close>; and the result is null exactly for
  the labels that are neither \<open>*\<close> nor of the form \<open>:name\<close> or \<open>:name{constraint}\<close>,
  as \<open>literal\<close>.
\<close>

theorem getPattern_cases:
  "getPattern valid (js ''*'') next st = (Inr (Some Wildcard), st)
   \<and> (patternCache st (js '':id#undefined'') = None \<longrightarrow>
        fst (getPattern valid (js '':id'') None st) =
          Inr (Some (Capture (js '':id'') (js ''id'') Always)))
   \<and> (patternCache st (js '':id{[0-9]+}#undefined'') = None \<and> valid (js ''^[0-9]+$'') \<longrightarrow>
        fst (getPattern valid (js '':id{[0-9]+}'') None st) =
          Inr (Some (Capture (js '':id{[0-9]+}'') (js ''id'')
                 (Matching (RegExp (js ''^[0-9]+$''))))))
   \<and> regExpTest (RegExp (js ''^[0-9]+$'')) (js ''123'') = Some True
   \<and> regExpTest (RegExp (js ''^[0-9]+$'')) (js ''abc'') = Some False
   \<and> regExpTest (RegExp (js ''^[0-9]+$'')) (js ''123abc'') = Some False
   \<and> regExpTest (RegExp (js ''^[0-9]+$'')) (js ''x123'') = Some False
   \<and> getPattern valid (js ''literal'') next st = (Inr None, st)
   \<and> (label \<noteq> js ''*'' \<and> \<not> spec_parameterLabel label \<longrightarrow>
        getPattern valid label next st = (Inr None, st))
   \<and> (fst (getPattern valid label next st) = Inr None) =
       (label \<noteq> js ''*'' \<and> \<not> spec_parameterLabel label)"
proof -
  have "getPattern valid (js ''literal'') next st = (Inr None, st)"
    by (rule getPattern_not_label) (simp, rule literal_not_label)
  with getPattern_wildcard [of valid "next" st] getPattern_id [of st valid]
    getPattern_digits [of st valid] regExpTest_digits
    getPattern_not_label [of label valid "next" st]
    getPattern_None_iff [of valid label "next" st]
  show ?thesis by blast
qed

theorem getPattern_cases_witness:
  "fst (getPattern (\<lambda>s. True) (js '':id'') None \<lparr>patternCache = Map.empty, compiled = 0\<rparr>) =
     Inr (Some (Capture (js '':id'') (js ''id'') Always))
   \<and> fst (getPattern (\<lambda>s. True) (js '':id{[0-9]+}'') None
          \<lparr>patternCache = Map.empty, compiled = 0\<rparr>) =
       Inr (Some (Capture (js '':id{[0-9]+}'') (js ''id'') (Matching (RegExp (js ''^[0-9]+$'')))))
   \<and> getPattern (\<lambda>s. True) (js ''a{b}'') None \<lparr>patternCache = Map.empty, compiled = 0\<rparr> =
       (Inr None, \<lparr>patternCache = Map.empty, compiled = 0\<rparr>)"
proof -
  let ?st = "\<lparr>patternCache = Map.empty, compiled = 0\<rparr>"
  have n: "js ''a{b}'' \<noteq> js ''*''" by simp
  have "matchLabel (js ''a{b}'') = None" by code_simp
  then have s: "\<not> spec_parameterLabel (js ''a{b}'')"
    using matchLabel_None_iff [of "js ''a{b}''"] by simp
  have e: "patternCache ?st (js '':id#undefined'') = None"
    "patternCache ?st (js '':id{[0-9]+}#undefined'') = None" by simp_all
  from getPattern_cases [of "\<lambda>s. True" None ?st "js ''a{b}''"] n s e
  show ?thesis by blast
qed


lemma compilePattern_throws:
  assumes "compilePattern valid key label name src st = (Inl e, st')"
  shows "patternCache st' = patternCache st"
  using assms by (auto simp: compilePattern_def split: sum.splits)

lemma compilePattern_not_None:
  "fst (compilePattern valid key label name src st) \<noteq> Inr None"
  by (simp add: compilePattern_def split: sum.splits)






text \<open>
  C3. The cache key is the text \<open>label#next\<close>, and an absent hint is printed as
  \<open>undefined\<close>: the call with the label \<open>:id{[0-9]+}\<close> and the hint \<open>undefined\<close> (the
  next segment of the route \<open>/:id{[0-9]+}/undefined\<close>) and the call with the same label
  and no hint share one cache entry. After the first, the second returns the pattern of
  the first, whose label is the cache key and whose constraint is
  \<open>^[0-9]+(?=/undefined)\<close>, not the constraint \<open>^[0-9]+$\<close> anchored to the whole
  segment.
\<close>

theorem getPattern_hint_collision:
  "getPattern (\<lambda>s. True) (js '':id{[0-9]+}'') (Some (js ''undefined''))
     \<lparr>patternCache = Map.empty, compiled = 0\<rparr> =
   (Inr (Some (Capture (js '':id{[0-9]+}#undefined'') (js ''id'')
                 (Matching (RegExp (js ''^[0-9]+(?=/undefined)''))))),
    \<lparr>patternCache = [js '':id{[0-9]+}#undefined'' \<mapsto>
         Capture (js '':id{[0-9]+}#undefined'') (js ''id'')
           (Matching (RegExp (js ''^[0-9]+(?=/undefined)'')))],
     compiled = 1\<rparr>)
   \<and> fst (getPattern (\<lambda>s. True) (js '':id{[0-9]+}'') None
          \<lparr>patternCache = [js '':id{[0-9]+}#undefined'' \<mapsto>
              Capture (js '':id{[0-9]+}#undefined'') (js ''id'')
                (Matching (RegExp (js ''^[0-9]+(?=/undefined)'')))],
           compiled = 1\<rparr>) =
       Inr (Some (Capture (js '':id{[0-9]+}#undefined'') (js ''id'')
                    (Matching (RegExp (js ''^[0-9]+(?=/undefined)'')))))"
  unfolding getPattern_def matchLabel_examples Let_def
  by (simp add: template_def usableHint_def compilePattern_def newRegExp_def)

section \<open>splitRoutingPath\<close>










subsection \<open>The numerals of the marks\<close>

























subsection \<open>Extracting the spans and restoring them\<close>

















text \<open>
  The spans are restored through marks \<open>@index\<close> and \<open>String.replace\<close>. A text that holds
  the text of a mark, a constraint that holds \<open>$$\<close>, a constraint that holds the text of
  an earlier mark, and a digit right behind a span that makes its mark read as a later
  one, do not come back as they were.
\<close>

lemma splitRoutingPath_mark_collisions:
  "splitRoutingPath (js ''/:a{x}/@3'') = [js '':a@3'', js ''{x}'']"
  "splitRoutingPath (js ''/:id{a$$b}'') = [js '':id{a$b}'']"
  "splitRoutingPath (js ''{a}/{@0}'') = [js ''@0'', js ''{{a}}'']"
  "splitRoutingPath (js ''x{a}2aaaaaaa{b}'') = [js ''x{b}aaaaaaa{a}2'']"
  by code_simp+

section \<open>Query parameters\<close>


subsection \<open>Searching and slicing at a known offset\<close>
















subsection \<open>Decoding a name and a value\<close>





lemma plusToSpace_percent: "(37 \<in> set (spec_plusToSpace v)) = (37 \<in> set v)"
  unfolding spec_plusToSpace_def by (induction v) auto




lemma spec_decoded_wellformed:
  "decodeURIComponent (spec_plusToSpace v) = Inr r \<Longrightarrow> spec_decoded v = r"
  by (simp add: spec_decoded_def tryDecode_def)


subsection \<open>One turn of the loop of the default routine\<close>










subsection \<open>The properties of the record of results\<close>























subsection \<open>The default routine on a query\<close>






subsection \<open>The optimized path on a query\<close>
















text \<open>
  The optimized path for an unencoded key looks for the text \<open>?key\<close> and \<open>&key\<close> anywhere
  behind offset 8, where the default routine splits the query at its separators. They
  differ on a value that holds a question mark, and on a path that holds an ampersand.
\<close>

lemma getQueryParam_fast_path_differs:
  "getQueryParam (js ''http://h/?x=?a=5&a=1'') (Some (js ''a'')) = Inr (JString (js ''5''))"
  "getQueryParams (js ''http://h/?x=?a=5&a=1'') (Some (js ''a'')) = Inr (JArray [js ''1''])"
  "getQueryParam (js ''http://h/p&a=3?b=1'') (Some (js ''a'')) = Inr (JString (js ''3?b=1''))"
  by code_simp+

text \<open>
  The record of results is an object, so a name that every object has from the start is
  found in it though no pair has that name, and is never assigned by \<open>??=\<close>; a pair named
  \<open>__proto__\<close> makes the record inherit from an array in multi-value mode; and the
  optimized path compares the key with the names as they are written, not decoded.
\<close>

lemma getQueryParam_inherited_properties:
  "getQueryParams (js ''http://h/?a=1'') (Some (js ''toString'')) = Inr (JBuiltin (js ''toString''))"
  "getQueryParam (js ''http://h/?a=%20'') (Some (js ''toString'')) = Inr (JBuiltin (js ''toString''))"
  "getQueryParams (js ''http://h/?__proto__=x'') (Some (js ''length'')) = Inr (JNumber 1)"
  "getQueryParam (js ''http://h/?toString=1'') None = Inr (JResults [] None)"
  "getQueryParam (js ''http://h/?%61=1&a=2'') (Some (js ''a'')) = Inr (JString (js ''2''))"
  by code_simp+

text \<open>
  The record lists the names that are array indices first, in ascending order, and the
  other names in the order of their first pair.
\<close>

lemma getQueryParam_record_order:
  "getQueryParam (js ''http://h/?b=x&2=y&10=w&1=z'') None =
     Inr (JResults [(js ''1'', JString (js ''z'')), (js ''2'', JString (js ''y'')),
                    (js ''10'', JString (js ''w'')), (js ''b'', JString (js ''x''))] None)"
  by code_simp

end
